theory Spec2Isabelle
  imports Complex_Main
begin

section \<open>Pong: a shallow embedding of pong.py\<close>

text \<open>
  Conventions of the embedding.
  \<^item> In this first part Python floats are modelled by \<open>real\<close>, in exact arithmetic;
    the second part of the definitions follows the arithmetic of the machine. Python ints
    are \<open>int\<close>.
  \<^item> A \<open>pygame.Rect\<close> is a record of four integers; its virtual attributes
    (\<open>left\<close>, \<open>right\<close>, \<open>top\<close>, \<open>bottom\<close>, \<open>centerx\<close>, \<open>centery\<close>) are getters and
    setters that move the rectangle without resizing it.
  \<^item> Every draw from \<open>random\<close> and every reading of \<open>pygame.time.get_ticks\<close> is an
    explicit argument of the operation that makes it.
  \<^item> The operations of Python that raise return a sum, \<open>Inl\<close> the exception.
\<close>

subsection \<open>Configuration\<close>

definition SCREEN_WIDTH :: int where "SCREEN_WIDTH = 800"
definition SCREEN_HEIGHT :: int where "SCREEN_HEIGHT = 600"
definition PADDLE_WIDTH :: int where "PADDLE_WIDTH = 12"
definition PADDLE_HEIGHT :: int where "PADDLE_HEIGHT = 100"
definition PADDLE_MARGIN :: int where "PADDLE_MARGIN = 30"
definition PADDLE_SPEED :: int where "PADDLE_SPEED = 420"
definition AI_MAX_SPEED :: int where "AI_MAX_SPEED = 390"
definition BALL_SIZE :: int where "BALL_SIZE = 14"
definition BALL_SPEED :: int where "BALL_SPEED = 360"
definition BALL_SPEED_INCREMENT :: int where "BALL_SPEED_INCREMENT = 18"
definition BALL_SPEED_MAX :: int where "BALL_SPEED_MAX = 680"
definition SCORE_TO_WIN :: int where "SCORE_TO_WIN = 10"
definition SERVE_DELAY :: int where "SERVE_DELAY = 800"
definition AI_TRACK_DAMPING :: real where "AI_TRACK_DAMPING = 22 / 100"
definition AI_LOOKAHEAD_FACTOR :: real where "AI_LOOKAHEAD_FACTOR = 55 / 100"

lemmas config_defs =
  SCREEN_WIDTH_def SCREEN_HEIGHT_def PADDLE_WIDTH_def PADDLE_HEIGHT_def PADDLE_MARGIN_def
  PADDLE_SPEED_def AI_MAX_SPEED_def BALL_SIZE_def BALL_SPEED_def BALL_SPEED_INCREMENT_def
  BALL_SPEED_MAX_def SCORE_TO_WIN_def SERVE_DELAY_def AI_TRACK_DAMPING_def
  AI_LOOKAHEAD_FACTOR_def

subsection \<open>Python primitives\<close>

datatype py_error = ZeroDivisionError | OverflowError | ValueError | TypeError

text \<open>\<open>a / b\<close> on floats.\<close>

definition py_div :: "real \<Rightarrow> real \<Rightarrow> py_error + real" where
  "py_div a b = (if b = 0 then Inl ZeroDivisionError else Inr (a / b))"

text \<open>\<open>a % b\<close> on floats: the remainder has the sign of the divisor.\<close>

definition py_mod :: "real \<Rightarrow> real \<Rightarrow> py_error + real" where
  "py_mod a b = (if b = 0 then Inl ZeroDivisionError else Inr (a - b * of_int \<lfloor>a / b\<rfloor>))"

text \<open>\<open>int(x)\<close> on a float truncates toward zero.\<close>

definition py_int :: "real \<Rightarrow> int" where
  "py_int r = (if 0 \<le> r then \<lfloor>r\<rfloor> else \<lceil>r\<rceil>)"

text \<open>\<open>math.copysign(a, s)\<close>: the magnitude of \<open>a\<close> with the sign of \<open>s\<close>.\<close>

definition copysign :: "real \<Rightarrow> real \<Rightarrow> real" where
  "copysign a s = (if s < 0 then - \<bar>a\<bar> else \<bar>a\<bar>)"

subsection \<open>pygame.Rect\<close>

text \<open>
  The getters are named \<open>get_left\<close>, ..., the setters \<open>set_left\<close>, ...; the record of the
  class \<open>Ball\<close> is \<open>Ball_t\<close>.
\<close>

record Rect =
  rect_x :: int
  rect_y :: int
  rect_w :: int
  rect_h :: int

definition get_left :: "Rect \<Rightarrow> int" where "get_left r = rect_x r"
definition get_right :: "Rect \<Rightarrow> int" where "get_right r = rect_x r + rect_w r"
definition get_top :: "Rect \<Rightarrow> int" where "get_top r = rect_y r"
definition get_bottom :: "Rect \<Rightarrow> int" where "get_bottom r = rect_y r + rect_h r"
definition get_centerx :: "Rect \<Rightarrow> int" where "get_centerx r = rect_x r + rect_w r div 2"
definition get_centery :: "Rect \<Rightarrow> int" where "get_centery r = rect_y r + rect_h r div 2"

definition set_left :: "int \<Rightarrow> Rect \<Rightarrow> Rect" where
  "set_left v r = r\<lparr>rect_x := v\<rparr>"
definition set_right :: "int \<Rightarrow> Rect \<Rightarrow> Rect" where
  "set_right v r = r\<lparr>rect_x := v - rect_w r\<rparr>"
definition set_top :: "int \<Rightarrow> Rect \<Rightarrow> Rect" where
  "set_top v r = r\<lparr>rect_y := v\<rparr>"
definition set_bottom :: "int \<Rightarrow> Rect \<Rightarrow> Rect" where
  "set_bottom v r = r\<lparr>rect_y := v - rect_h r\<rparr>"
definition set_centery :: "int \<Rightarrow> Rect \<Rightarrow> Rect" where
  "set_centery v r = r\<lparr>rect_y := v - rect_h r div 2\<rparr>"
definition set_center :: "int \<times> int \<Rightarrow> Rect \<Rightarrow> Rect" where
  "set_center c r = r\<lparr>rect_x := fst c - rect_w r div 2, rect_y := snd c - rect_h r div 2\<rparr>"

text \<open>
  \<open>Rect.colliderect\<close>: the two rectangles overlap; a rectangle of zero width or height
  collides with nothing, and rectangles that only touch along an edge do not collide.
\<close>

definition colliderect :: "Rect \<Rightarrow> Rect \<Rightarrow> bool" where
  "colliderect a b =
     (if rect_w a = 0 \<or> rect_h a = 0 \<or> rect_w b = 0 \<or> rect_h b = 0 then False
      else min (rect_x a) (rect_x a + rect_w a) < max (rect_x b) (rect_x b + rect_w b)
         \<and> min (rect_y a) (rect_y a + rect_h a) < max (rect_y b) (rect_y b + rect_h b)
         \<and> max (rect_x a) (rect_x a + rect_w a) > min (rect_x b) (rect_x b + rect_w b)
         \<and> max (rect_y a) (rect_y a + rect_h a) > min (rect_y b) (rect_y b + rect_h b))"

lemmas rect_defs =
  get_left_def get_right_def get_top_def get_bottom_def get_centerx_def get_centery_def
  set_left_def set_right_def set_top_def set_bottom_def set_centery_def set_center_def

subsection \<open>Geometry utilities\<close>

definition clamp :: "real \<Rightarrow> real \<Rightarrow> real \<Rightarrow> real" where
  "clamp val lo hi = max lo (min hi val)"

definition reflect_off_bounds :: "real \<Rightarrow> real \<Rightarrow> real \<Rightarrow> py_error + real" where
  "reflect_off_bounds y min_y max_y =
     (let span = max_y - min_y in
      if span \<le> 0 then Inr (clamp y min_y max_y)
      else
        case py_mod (y - min_y) (2 * span) of
          Inl e \<Rightarrow> Inl e
        | Inr t \<Rightarrow> Inr (min_y + (if t > span then 2 * span - t else t)))"

subsection \<open>Randomness and time\<close>

text \<open>
  The draws that one frame can make from \<open>random\<close>, in the order of their call sites:
  \<open>_rand_reaction_delay\<close> (\<open>uniform(80, 160)\<close>), the two factors of
  \<open>_rand_aim_error\<close> (\<open>uniform(10, 48)\<close> and \<open>choice([-1.0, 1.0])\<close>), the serve angle
  (\<open>uniform(-0.35, 0.35)\<close>) and the bounce jitter (\<open>uniform(-8.0, 8.0)\<close>).
\<close>

record Rand =
  reaction_delay :: real
  aim_magnitude :: real
  aim_sign :: real
  serve_angle :: real
  jitter :: real

definition rand_ok :: "Rand \<Rightarrow> bool" where
  "rand_ok r =
     (80 \<le> reaction_delay r \<and> reaction_delay r \<le> 160
      \<and> 10 \<le> aim_magnitude r \<and> aim_magnitude r \<le> 48
      \<and> (aim_sign r = - 1 \<or> aim_sign r = 1)
      \<and> - (35 / 100) \<le> serve_angle r \<and> serve_angle r \<le> 35 / 100
      \<and> - 8 \<le> jitter r \<and> jitter r \<le> 8)"

subsection \<open>Paddle\<close>

record Paddle =
  p_rect :: Rect
  is_ai :: bool
  p_speed :: int
  reaction_timer :: real
  next_reaction_at :: real
  target_y :: real
  aim_error :: real

definition rand_reaction_delay :: "Rand \<Rightarrow> real" where
  "rand_reaction_delay r = reaction_delay r"

definition rand_aim_error :: "Rand \<Rightarrow> real" where
  "rand_aim_error r = aim_magnitude r * aim_sign r"

definition Paddle_init :: "Rand \<Rightarrow> int \<Rightarrow> int \<Rightarrow> bool \<Rightarrow> Paddle" where
  "Paddle_init r x y ai =
     (let rc = \<lparr>rect_x = x, rect_y = y, rect_w = PADDLE_WIDTH, rect_h = PADDLE_HEIGHT\<rparr> in
      \<lparr>p_rect = rc, is_ai = ai,
       p_speed = (if ai then AI_MAX_SPEED else PADDLE_SPEED),
       reaction_timer = 0,
       next_reaction_at = rand_reaction_delay r,
       target_y = of_int (get_centery rc),
       aim_error = 0\<rparr>)"

definition update_player :: "real \<Rightarrow> bool \<Rightarrow> bool \<Rightarrow> Paddle \<Rightarrow> Paddle" where
  "update_player dt up down p =
     (let dy0 = (if up then 0 - of_int (p_speed p) * dt else 0);
          dy = (if down then dy0 + of_int (p_speed p) * dt else dy0)
      in p\<lparr>p_rect :=
            set_centery
              (max (PADDLE_HEIGHT div 2)
                 (min (SCREEN_HEIGHT - PADDLE_HEIGHT div 2)
                    (py_int (of_int (get_centery (p_rect p)) + dy))))
              (p_rect p)\<rparr>)"

subsection \<open>Ball\<close>

record Ball_t =
  b_rect :: Rect
  velocity_x :: real
  velocity_y :: real
  b_speed :: int
  serve_dir :: int
  serve_time :: int

definition length_squared :: "Ball_t \<Rightarrow> real" where
  "length_squared b = velocity_x b * velocity_x b + velocity_y b * velocity_y b"

definition Ball_init :: "int \<Rightarrow> int \<Rightarrow> int \<times> int \<Rightarrow> Ball_t" where
  "Ball_init choice now center =
     \<lparr>b_rect = set_center center
                 \<lparr>rect_x = 0, rect_y = 0, rect_w = BALL_SIZE, rect_h = BALL_SIZE\<rparr>,
      velocity_x = 0, velocity_y = 0,
      b_speed = BALL_SPEED,
      serve_dir = choice,
      serve_time = now + SERVE_DELAY\<rparr>"

definition serve_if_ready :: "int \<Rightarrow> Rand \<Rightarrow> Ball_t \<Rightarrow> Ball_t" where
  "serve_if_ready now r b =
     (if length_squared b = 0 \<and> now \<ge> serve_time b then
        (let angle = serve_angle r in
         b\<lparr>velocity_x := copysign (of_int (b_speed b) * cos angle) (of_int (serve_dir b)),
           velocity_y := of_int (b_speed b) * sin angle\<rparr>)
      else b)"

definition reset :: "int \<Rightarrow> int \<Rightarrow> Ball_t \<Rightarrow> Ball_t" where
  "reset scorer_dir now b =
     b\<lparr>b_rect := set_center (SCREEN_WIDTH div 2, SCREEN_HEIGHT div 2) (b_rect b),
       b_speed := BALL_SPEED,
       velocity_x := 0, velocity_y := 0,
       serve_dir := scorer_dir,
       serve_time := now + SERVE_DELAY\<rparr>"

definition bounce_off_paddle ::
  "Rand \<Rightarrow> Paddle \<Rightarrow> bool \<Rightarrow> Ball_t \<Rightarrow> py_error + Ball_t" where
  "bounce_off_paddle r paddle is_left b =
     (case py_div (of_int (get_centery (b_rect b) - get_centery (p_rect paddle)))
                  (of_int PADDLE_HEIGHT / 2) of
        Inl e \<Rightarrow> Inl e
      | Inr offset0 \<Rightarrow>
          (let offset = clamp offset0 (- 1) 1;
               angle = offset * (9 / 10);
               speed = min BALL_SPEED_MAX (b_speed b + BALL_SPEED_INCREMENT);
               direction = (if \<not> is_left then 1 else - 1);
               vx = direction * of_int speed * cos angle;
               vy = of_int speed * sin angle;
               rc = (if is_left then set_left (get_right (p_rect paddle)) (b_rect b)
                     else set_right (get_left (p_rect paddle)) (b_rect b));
               vy' = vy + jitter r
           in Inr (b\<lparr>b_speed := speed, b_rect := rc, velocity_x := vx, velocity_y := vy'\<rparr>)))"

text \<open>The four stages of \<open>Ball.update\<close> after the serve, in the order of the source.\<close>

definition integrate :: "real \<Rightarrow> Ball_t \<Rightarrow> Ball_t" where
  \<comment> \<open>\<open># Move\<close>\<close>
  "integrate dt b =
     (let r1 = (b_rect b)\<lparr>rect_x := rect_x (b_rect b) + py_int (velocity_x b * dt)\<rparr>;
          r2 = r1\<lparr>rect_y := rect_y r1 + py_int (velocity_y b * dt)\<rparr>
      in b\<lparr>b_rect := r2\<rparr>)"

definition collide_walls :: "Ball_t \<Rightarrow> Ball_t" where
  \<comment> \<open>\<open># Collide with top/bottom\<close>\<close>
  "collide_walls b =
     (if get_top (b_rect b) \<le> 0 then
        b\<lparr>b_rect := set_top 0 (b_rect b), velocity_y := velocity_y b * (- 1)\<rparr>
      else if get_bottom (b_rect b) \<ge> SCREEN_HEIGHT then
        b\<lparr>b_rect := set_bottom SCREEN_HEIGHT (b_rect b), velocity_y := velocity_y b * (- 1)\<rparr>
      else b)"

definition collide_paddles ::
  "Rand \<Rightarrow> Paddle \<Rightarrow> Paddle \<Rightarrow> Ball_t \<Rightarrow> py_error + Ball_t" where
  \<comment> \<open>\<open># Paddle collisions\<close>\<close>
  "collide_paddles r left_paddle right_paddle b =
     (if colliderect (b_rect b) (p_rect left_paddle) \<and> velocity_x b < 0 then
        bounce_off_paddle r left_paddle True b
      else if colliderect (b_rect b) (p_rect right_paddle) \<and> velocity_x b > 0 then
        bounce_off_paddle r right_paddle False b
      else Inr b)"

definition out_of_bounds :: "Ball_t \<Rightarrow> int" where
  \<comment> \<open>\<open># Out of bounds (score)\<close>\<close>
  "out_of_bounds b =
     (if get_right (b_rect b) < 0 then 1
      else if get_left (b_rect b) > SCREEN_WIDTH then - 1
      else 0)"

definition update ::
  "real \<Rightarrow> int \<Rightarrow> Rand \<Rightarrow> Paddle \<Rightarrow> Paddle \<Rightarrow> Ball_t \<Rightarrow> py_error + Ball_t \<times> int" where
  "update dt now r left_paddle right_paddle b =
     (let b1 = serve_if_ready now r b in
      if length_squared b1 = 0 then Inr (b1, 0)
      else
        case collide_paddles r left_paddle right_paddle (collide_walls (integrate dt b1)) of
          Inl e \<Rightarrow> Inl e
        | Inr b4 \<Rightarrow> Inr (b4, out_of_bounds b4))"

subsection \<open>The AI paddle\<close>

definition ai_retarget :: "Rand \<Rightarrow> Ball_t \<Rightarrow> Paddle \<Rightarrow> py_error + Paddle" where
  \<comment> \<open>the body of \<open>if self._reaction_timer >= self._next_reaction_at\<close>\<close>
  "ai_retarget r ball p =
     (let p1 = p\<lparr>reaction_timer := 0, next_reaction_at := rand_reaction_delay r\<rparr> in
      if velocity_x ball > 0 then
        case (if velocity_x ball \<noteq> 0
              then py_div (of_int (get_left (p_rect p1) - get_right (b_rect ball)))
                     (velocity_x ball)
              else Inr 0) of
          Inl e \<Rightarrow> Inl e
        | Inr time_to_reach \<Rightarrow>
            (case reflect_off_bounds
                    (of_int (get_centery (b_rect ball))
                       + velocity_y ball * time_to_reach * AI_LOOKAHEAD_FACTOR)
                    (of_int (BALL_SIZE div 2))
                    (of_int (SCREEN_HEIGHT - BALL_SIZE div 2)) of
               Inl e \<Rightarrow> Inl e
             | Inr predicted_y \<Rightarrow>
                 (case py_div \<bar>velocity_x ball\<bar> (of_int BALL_SPEED_MAX) of
                    Inl e \<Rightarrow> Inl e
                  | Inr ratio \<Rightarrow>
                      (let err = rand_aim_error r * min 1 ratio in
                       Inr (p1\<lparr>aim_error := err, target_y := predicted_y + err\<rparr>))))
      else
        (let err = rand_aim_error r * (3 / 10) in
         Inr (p1\<lparr>aim_error := err, target_y := of_int SCREEN_HEIGHT / 2 + err\<rparr>)))"

definition ai_track :: "real \<Rightarrow> Paddle \<Rightarrow> Paddle" where
  \<comment> \<open>\<open># Smoothly track target with damping and speed limit\<close>, \<open># Keep within bounds\<close>\<close>
  "ai_track dt p =
     (let desired = (target_y p - of_int (get_centery (p_rect p))) * AI_TRACK_DAMPING;
          max_step = of_int (p_speed p) * dt;
          step = clamp desired (- max_step) max_step;
          r1 = set_centery (py_int (of_int (get_centery (p_rect p)) + step)) (p_rect p);
          r2 = set_top (max 0 (get_top r1)) r1;
          r3 = set_bottom (min SCREEN_HEIGHT (get_bottom r2)) r2
      in p\<lparr>p_rect := r3\<rparr>)"

definition update_ai :: "real \<Rightarrow> Rand \<Rightarrow> Ball_t \<Rightarrow> Paddle \<Rightarrow> py_error + Paddle" where
  "update_ai dt r ball p =
     (let p0 = p\<lparr>reaction_timer := reaction_timer p + dt * 1000\<rparr> in
      case (if reaction_timer p0 \<ge> next_reaction_at p0 then ai_retarget r ball p0
            else Inr p0) of
        Inl e \<Rightarrow> Inl e
      | Inr p2 \<Rightarrow> Inr (ai_track dt p2))"

subsection \<open>The match loop\<close>

record Match =
  left_paddle :: Paddle
  right_paddle :: Paddle
  ball :: Ball_t
  left_score :: int
  right_score :: int
  running :: bool

text \<open>
  What one pass of the loop reads from its collaborators: the frame time in seconds, the
  quit signal, the two keys, the clock at the ball's update and at its reset, and the
  random draws.
\<close>

record Frame_input =
  frame_dt :: real
  quit_event :: bool
  key_up :: bool
  key_down :: bool
  ticks_update :: int
  ticks_reset :: int
  draws :: Rand

definition initial_match :: "Rand \<Rightarrow> int \<Rightarrow> int \<Rightarrow> Match" where
  "initial_match r choice now =
     \<lparr>left_paddle =
        Paddle_init r PADDLE_MARGIN (SCREEN_HEIGHT div 2 - PADDLE_HEIGHT div 2) False,
      right_paddle =
        Paddle_init r (SCREEN_WIDTH - PADDLE_MARGIN - PADDLE_WIDTH)
          (SCREEN_HEIGHT div 2 - PADDLE_HEIGHT div 2) True,
      ball = Ball_init choice now (SCREEN_WIDTH div 2, SCREEN_HEIGHT div 2),
      left_score = 0, right_score = 0, running = True\<rparr>"

definition apply_score :: "int \<Rightarrow> int \<Rightarrow> Match \<Rightarrow> Match" where
  \<comment> \<open>\<open>if score_dir != 0: ...\<close>\<close>
  "apply_score score_dir now m =
     (if score_dir \<noteq> 0 then
        (if score_dir > 0 then
           m\<lparr>left_score := left_score m + 1, ball := reset 1 now (ball m)\<rparr>
         else
           m\<lparr>right_score := right_score m + 1, ball := reset (- 1) now (ball m)\<rparr>)
      else m)"

definition win_banner :: "Match \<Rightarrow> Match" where
  \<comment> \<open>\<open># Win banner\<close>: the drawing is omitted, the freeze is kept\<close>
  "win_banner m =
     (if left_score m \<ge> SCORE_TO_WIN \<or> right_score m \<ge> SCORE_TO_WIN then
        m\<lparr>ball := (ball m)\<lparr>velocity_x := 0, velocity_y := 0\<rparr>\<rparr>
      else m)"

definition frame :: "Frame_input \<Rightarrow> Match \<Rightarrow> py_error + Match" where
  "frame i m =
     (let m0 = (if quit_event i then m\<lparr>running := False\<rparr> else m);
          lp = update_player (frame_dt i) (key_up i) (key_down i) (left_paddle m0)
      in case update_ai (frame_dt i) (draws i) (ball m0) (right_paddle m0) of
           Inl e \<Rightarrow> Inl e
         | Inr rp \<Rightarrow>
             (case update (frame_dt i) (ticks_update i) (draws i) lp rp (ball m0) of
                Inl e \<Rightarrow> Inl e
              | Inr (b, score_dir) \<Rightarrow>
                  Inr (win_banner
                         (apply_score score_dir (ticks_reset i)
                            (m0\<lparr>left_paddle := lp, right_paddle := rp, ball := b\<rparr>)))))"

text \<open>\<open>while running:\<close> over the inputs of successive frames.\<close>

fun run :: "Frame_input list \<Rightarrow> Match \<Rightarrow> py_error + Match" where
  "run [] m = Inr m"
| "run (i # rest) m =
     (if running m then
        (case frame i m of Inl e \<Rightarrow> Inl e | Inr m' \<Rightarrow> run rest m')
      else Inr m)"

subsection \<open>Predicates of the specification and sample states\<close>

text \<open>The paddle invariant: the vertical centre lies between half a paddle from either edge.\<close>

definition paddle_in_bounds :: "Paddle \<Rightarrow> bool" where
  "paddle_in_bounds p =
     (PADDLE_HEIGHT div 2 \<le> get_centery (p_rect p)
      \<and> get_centery (p_rect p) \<le> SCREEN_HEIGHT - PADDLE_HEIGHT div 2)"

definition paddles_ok :: "Match \<Rightarrow> bool" where
  "paddles_ok m =
     (paddle_in_bounds (left_paddle m) \<and> paddle_in_bounds (right_paddle m)
      \<and> rect_h (p_rect (right_paddle m)) = PADDLE_HEIGHT)"

text \<open>
  Concrete inputs for the evaluations below: a fixed set of draws (serve angle and jitter
  zero), a ball of the regular size at a given place with a given velocity, a frame of
  17 ms read at a given tick, and a match one point before the left score reaches
  \<open>SCORE_TO_WIN\<close> with the ball already past the left edge.
\<close>

definition draws0 :: Rand where
  "draws0 =
     \<lparr>reaction_delay = 100, aim_magnitude = 20, aim_sign = 1, serve_angle = 0, jitter = 0\<rparr>"

definition ball_at :: "int \<Rightarrow> int \<Rightarrow> real \<Rightarrow> real \<Rightarrow> Ball_t" where
  "ball_at x y vx vy =
     (Ball_init 1 0 (SCREEN_WIDTH div 2, SCREEN_HEIGHT div 2))
       \<lparr>b_rect := \<lparr>rect_x = x, rect_y = y, rect_w = BALL_SIZE, rect_h = BALL_SIZE\<rparr>,
        velocity_x := vx, velocity_y := vy\<rparr>"

definition frame_at :: "int \<Rightarrow> Frame_input" where
  "frame_at now =
     \<lparr>frame_dt = 17 / 1000, quit_event = False, key_up = False, key_down = False,
      ticks_update = now, ticks_reset = now, draws = draws0\<rparr>"

definition match_point :: Match where
  "match_point =
     (initial_match draws0 1 0)\<lparr>left_score := 9, ball := ball_at (- 20) 293 (- 360) 0\<rparr>"

text \<open>What the screen shows of a match: both scores, the ball's corner and its velocity.\<close>

definition observe :: "Match \<Rightarrow> int \<times> int \<times> int \<times> int \<times> real \<times> real" where
  "observe m =
     (left_score m, right_score m, rect_x (b_rect (ball m)), rect_y (b_rect (ball m)),
      velocity_x (ball m), velocity_y (ball m))"

section \<open>The same program in machine arithmetic\<close>

text \<open>
  The definitions above compute in exact arithmetic. The ones below follow the arithmetic
  of the machine: a Python float is an IEEE 754 binary64 number, every operation rounds
  its exact result to the nearest such number (ties to the even mantissa), overflows to an
  infinity and propagates NaN. The two zeros are not told apart. They are the model for
  the claims that depend on rounding or on an operation being defined.
\<close>

subsection \<open>Rounding to binary64\<close>

text \<open>
  \<open>rne\<close> rounds a real to the nearest integer, ties to even. \<open>ulp_exp x\<close> is the exponent
  of the last mantissa bit of the doubles around \<open>x\<close> (53 bits of mantissa, exponent
  clipped at the subnormal range). \<open>fl\<close> rounds a real to the nearest double, the exponent
  unbounded above; \<open>round_f\<close> adds the overflow to an infinity.
\<close>

definition rne :: "real \<Rightarrow> int" where
  "rne x =
     (let f = \<lfloor>x\<rfloor>; d = x - of_int f
      in if d < 1 / 2 then f else if d > 1 / 2 then f + 1 else if even f then f else f + 1)"

definition ulp_exp :: "real \<Rightarrow> int" where
  "ulp_exp x = max \<lfloor>log 2 \<bar>x\<bar>\<rfloor> (- 1022) - 52"

definition fl :: "real \<Rightarrow> real" where
  "fl x = (if x = 0 then 0 else of_int (rne (x / 2 powi ulp_exp x)) * 2 powi ulp_exp x)"

text \<open>The largest finite double.\<close>

definition DBL_MAX :: real where
  "DBL_MAX = (2 ^ 53 - 1) * 2 ^ 971"

subsection \<open>Python floats\<close>

text \<open>A float is a finite double, one of the two infinities, or NaN.\<close>

datatype pyfloat = Fin real | PInf | NInf | NaN

definition round_f :: "real \<Rightarrow> pyfloat" where
  "round_f r =
     (let v = fl r in if \<bar>v\<bar> < 2 ^ 1024 then Fin v else if 0 < v then PInf else NInf)"

text \<open>Negation, \<open>+\<close>, \<open>-\<close> and \<open>*\<close>; none of them raises.\<close>

fun fneg :: "pyfloat \<Rightarrow> pyfloat" where
  "fneg (Fin a) = Fin (- a)"
| "fneg PInf = NInf"
| "fneg NInf = PInf"
| "fneg NaN = NaN"

fun fadd :: "pyfloat \<Rightarrow> pyfloat \<Rightarrow> pyfloat" where
  "fadd (Fin a) (Fin b) = round_f (a + b)"
| "fadd NaN y = NaN"
| "fadd x NaN = NaN"
| "fadd PInf NInf = NaN"
| "fadd NInf PInf = NaN"
| "fadd PInf y = PInf"
| "fadd NInf y = NInf"
| "fadd (Fin a) y = y"

definition fsub :: "pyfloat \<Rightarrow> pyfloat \<Rightarrow> pyfloat" where
  "fsub x y = fadd x (fneg y)"

fun fmul :: "pyfloat \<Rightarrow> pyfloat \<Rightarrow> pyfloat" where
  "fmul (Fin a) (Fin b) = round_f (a * b)"
| "fmul NaN y = NaN"
| "fmul x NaN = NaN"
| "fmul (Fin a) y = (if a = 0 then NaN else if 0 < a then y else fneg y)"
| "fmul x (Fin b) = (if b = 0 then NaN else if 0 < b then x else fneg x)"
| "fmul PInf y = y"
| "fmul NInf y = fneg y"

text \<open>The comparisons \<open><\<close>, \<open>>\<close>, \<open>==\<close>, \<open><=\<close>, \<open>>=\<close>: false whenever an operand is NaN.\<close>

fun flt :: "pyfloat \<Rightarrow> pyfloat \<Rightarrow> bool" where
  "flt (Fin a) (Fin b) = (a < b)"
| "flt NaN y = False"
| "flt x NaN = False"
| "flt x NInf = False"
| "flt PInf y = False"
| "flt x PInf = True"
| "flt NInf y = True"

definition fgt :: "pyfloat \<Rightarrow> pyfloat \<Rightarrow> bool" where
  "fgt x y = flt y x"

definition feq :: "pyfloat \<Rightarrow> pyfloat \<Rightarrow> bool" where
  "feq x y = (x \<noteq> NaN \<and> x = y)"

definition fle :: "pyfloat \<Rightarrow> pyfloat \<Rightarrow> bool" where
  "fle x y = (flt x y \<or> feq x y)"

definition fge :: "pyfloat \<Rightarrow> pyfloat \<Rightarrow> bool" where
  "fge x y = fle y x"

text \<open>
  The builtins \<open>min(a, b)\<close> and \<open>max(a, b)\<close>: the first argument, unless the second is
  strictly smaller (larger).
\<close>

definition py_min :: "pyfloat \<Rightarrow> pyfloat \<Rightarrow> pyfloat" where
  "py_min a b = (if flt b a then b else a)"

definition py_max :: "pyfloat \<Rightarrow> pyfloat \<Rightarrow> pyfloat" where
  "py_max a b = (if fgt b a then b else a)"

text \<open>
  \<open>a % b\<close> on floats: \<open>ZeroDivisionError\<close> for a zero divisor; otherwise C's \<open>fmod\<close>
  (exact, with the sign of \<open>a\<close>), to which \<open>b\<close> is added (and the sum rounded) when it is
  nonzero and its sign differs from that of \<open>b\<close>.
\<close>

fun float_mod :: "pyfloat \<Rightarrow> pyfloat \<Rightarrow> py_error + pyfloat" where
  "float_mod (Fin a) (Fin b) =
     (if b = 0 then Inl ZeroDivisionError
      else
        (let r = a - b * of_int (py_int (a / b)) in
         if r \<noteq> 0 then (if (b < 0) \<noteq> (r < 0) then Inr (round_f (r + b)) else Inr (Fin r))
         else Inr (Fin 0)))"
| "float_mod NaN y = (if y = Fin 0 then Inl ZeroDivisionError else Inr NaN)"
| "float_mod x NaN = Inr NaN"
| "float_mod (Fin a) PInf = (if a < 0 then Inr PInf else Inr (Fin a))"
| "float_mod (Fin a) NInf = (if 0 < a then Inr NInf else Inr (Fin a))"
| "float_mod x y = (if y = Fin 0 then Inl ZeroDivisionError else Inr NaN)"

subsection \<open>Geometry utilities on floats\<close>

definition clamp_f :: "pyfloat \<Rightarrow> pyfloat \<Rightarrow> pyfloat \<Rightarrow> pyfloat" where
  "clamp_f val lo hi = py_max lo (py_min hi val)"

definition reflect_off_bounds_f ::
  "pyfloat \<Rightarrow> pyfloat \<Rightarrow> pyfloat \<Rightarrow> py_error + pyfloat" where
  "reflect_off_bounds_f y min_y max_y =
     (let span = fsub max_y min_y in
      if fle span (Fin 0) then Inr (clamp_f y min_y max_y)
      else
        case float_mod (fsub y min_y) (fmul (Fin 2) span) of
          Inl e \<Rightarrow> Inl e
        | Inr t \<Rightarrow>
            Inr (fadd min_y (if fgt t span then fsub (fmul (Fin 2) span) t else t)))"


subsection \<open>Python and pygame primitives on floats\<close>

text \<open>
  \<open>a / b\<close> on floats raises \<open>ZeroDivisionError\<close> for a zero divisor, whatever \<open>a\<close> is.
\<close>

fun float_div :: "pyfloat \<Rightarrow> pyfloat \<Rightarrow> py_error + pyfloat" where
  "float_div x (Fin b) =
     (if b = 0 then Inl ZeroDivisionError
      else
        (case x of
           Fin a \<Rightarrow> Inr (round_f (a / b))
         | PInf \<Rightarrow> Inr (if 0 < b then PInf else NInf)
         | NInf \<Rightarrow> Inr (if 0 < b then NInf else PInf)
         | NaN \<Rightarrow> Inr NaN))"
| "float_div NaN y = Inr NaN"
| "float_div x NaN = Inr NaN"
| "float_div (Fin a) y = Inr (Fin 0)"
| "float_div x y = Inr NaN"

text \<open>\<open>abs\<close>, and \<open>math.copysign(x, s)\<close> for an integer \<open>s\<close>.\<close>

fun fabs :: "pyfloat \<Rightarrow> pyfloat" where
  "fabs (Fin a) = Fin \<bar>a\<bar>"
| "fabs PInf = PInf"
| "fabs NInf = PInf"
| "fabs NaN = NaN"

fun copysign_f :: "pyfloat \<Rightarrow> int \<Rightarrow> pyfloat" where
  "copysign_f (Fin a) s = Fin (if s < 0 then - \<bar>a\<bar> else \<bar>a\<bar>)"
| "copysign_f NaN s = NaN"
| "copysign_f x s = (if s < 0 then NInf else PInf)"

text \<open>
  \<open>int(x)\<close> truncates a finite float and raises \<open>OverflowError\<close> on an infinity,
  \<open>ValueError\<close> on NaN; \<open>math.cos\<close> and \<open>math.sin\<close> (taken as correctly rounded) raise
  \<open>ValueError\<close> on an infinity.
\<close>

fun float_int :: "pyfloat \<Rightarrow> py_error + int" where
  "float_int (Fin a) = Inr (py_int a)"
| "float_int NaN = Inl ValueError"
| "float_int x = Inl OverflowError"

fun float_cos :: "pyfloat \<Rightarrow> py_error + pyfloat" where
  "float_cos (Fin a) = Inr (round_f (cos a))"
| "float_cos NaN = Inr NaN"
| "float_cos x = Inl ValueError"

fun float_sin :: "pyfloat \<Rightarrow> py_error + pyfloat" where
  "float_sin (Fin a) = Inr (round_f (sin a))"
| "float_sin NaN = Inr NaN"
| "float_sin x = Inl ValueError"

text \<open>
  An integer operand of a float operation is converted to the nearest double (the
  integers of the program are far below the size at which the conversion raises).
\<close>

definition of_py_int :: "int \<Rightarrow> pyfloat" where
  "of_py_int n = round_f (of_int n)"

text \<open>Sequencing: the first exception raised ends the computation.\<close>

definition and_then :: "py_error + 'a \<Rightarrow> ('a \<Rightarrow> py_error + 'b) \<Rightarrow> py_error + 'b" where
  "and_then x f = (case x of Inl e \<Rightarrow> Inl e | Inr v \<Rightarrow> f v)"

text \<open>
  A \<open>pygame.Rect\<close> stores C integers of 32 bits: assigning an integer outside their range
  to one of its attributes raises \<open>TypeError\<close>.
\<close>

definition c_int_ok :: "int \<Rightarrow> bool" where
  "c_int_ok v = (- (2 ^ 31) \<le> v \<and> v \<le> 2 ^ 31 - 1)"

definition rect_assign :: "(int \<Rightarrow> Rect \<Rightarrow> Rect) \<Rightarrow> int \<Rightarrow> Rect \<Rightarrow> py_error + Rect" where
  "rect_assign setter v r = (if c_int_ok v then Inr (setter v r) else Inl TypeError)"

definition set_x :: "int \<Rightarrow> Rect \<Rightarrow> Rect" where "set_x v r = r\<lparr>rect_x := v\<rparr>"
definition set_y :: "int \<Rightarrow> Rect \<Rightarrow> Rect" where "set_y v r = r\<lparr>rect_y := v\<rparr>"

definition rect_assign_center :: "int \<times> int \<Rightarrow> Rect \<Rightarrow> py_error + Rect" where
  "rect_assign_center c r =
     (if c_int_ok (fst c) \<and> c_int_ok (snd c) then Inr (set_center c r) else Inl TypeError)"

subsection \<open>Paddle, ball and match loop on floats\<close>

text \<open>
  The classes and functions of the source once more, named with the suffix \<open>_m\<close>, on
  floats and with every exception as a result. The float literals \<open>0.55\<close>, \<open>0.3\<close>,
  \<open>0.22\<close> and \<open>0.9\<close> denote the nearest doubles.
\<close>

record Rand_m =
  reaction_delay_m :: pyfloat
  aim_magnitude_m :: pyfloat
  aim_sign_m :: pyfloat
  serve_angle_m :: pyfloat
  jitter_m :: pyfloat

record Paddle_m =
  rect_pm :: Rect
  is_ai_m :: bool
  speed_pm :: int
  reaction_timer_m :: pyfloat
  next_reaction_at_m :: pyfloat
  target_y_m :: pyfloat
  aim_error_m :: pyfloat

record Ball_m =
  rect_bm :: Rect
  velocity_x_m :: pyfloat
  velocity_y_m :: pyfloat
  speed_bm :: int
  serve_dir_m :: int
  serve_time_m :: int

definition rand_aim_error_m :: "Rand_m \<Rightarrow> pyfloat" where
  "rand_aim_error_m r = fmul (aim_magnitude_m r) (aim_sign_m r)"

definition Paddle_init_m :: "Rand_m \<Rightarrow> int \<Rightarrow> int \<Rightarrow> bool \<Rightarrow> Paddle_m" where
  "Paddle_init_m r x y ai =
     (let rc = \<lparr>rect_x = x, rect_y = y, rect_w = PADDLE_WIDTH, rect_h = PADDLE_HEIGHT\<rparr> in
      \<lparr>rect_pm = rc, is_ai_m = ai,
       speed_pm = (if ai then AI_MAX_SPEED else PADDLE_SPEED),
       reaction_timer_m = Fin 0,
       next_reaction_at_m = reaction_delay_m r,
       target_y_m = of_py_int (get_centery rc),
       aim_error_m = Fin 0\<rparr>)"

definition update_player_m :: "pyfloat \<Rightarrow> bool \<Rightarrow> bool \<Rightarrow> Paddle_m \<Rightarrow> py_error + Paddle_m" where
  "update_player_m dt up down p =
     (let dy0 = (if up then fsub (Fin 0) (fmul (of_py_int (speed_pm p)) dt) else Fin 0);
          dy = (if down then fadd dy0 (fmul (of_py_int (speed_pm p)) dt) else dy0)
      in and_then (float_int (fadd (of_py_int (get_centery (rect_pm p))) dy)) (\<lambda>n.
         and_then (rect_assign set_centery
                     (max (PADDLE_HEIGHT div 2) (min (SCREEN_HEIGHT - PADDLE_HEIGHT div 2) n))
                     (rect_pm p)) (\<lambda>rc.
         Inr (p\<lparr>rect_pm := rc\<rparr>))))"

definition ai_retarget_m :: "Rand_m \<Rightarrow> Ball_m \<Rightarrow> Paddle_m \<Rightarrow> py_error + Paddle_m" where
  "ai_retarget_m r bl p =
     (let p1 = p\<lparr>reaction_timer_m := Fin 0, next_reaction_at_m := reaction_delay_m r\<rparr> in
      if fgt (velocity_x_m bl) (Fin 0) then
        and_then
          (if \<not> feq (velocity_x_m bl) (Fin 0)
           then float_div (of_py_int (get_left (rect_pm p1) - get_right (rect_bm bl)))
                  (velocity_x_m bl)
           else Inr (Fin 0)) (\<lambda>time_to_reach.
        and_then
          (reflect_off_bounds_f
             (fadd (of_py_int (get_centery (rect_bm bl)))
                (fmul (fmul (velocity_y_m bl) time_to_reach) (round_f (55 / 100))))
             (of_py_int (BALL_SIZE div 2))
             (of_py_int (SCREEN_HEIGHT - BALL_SIZE div 2))) (\<lambda>predicted_y.
        and_then (float_div (fabs (velocity_x_m bl)) (of_py_int BALL_SPEED_MAX)) (\<lambda>ratio.
          (let err = fmul (rand_aim_error_m r) (py_min (Fin 1) ratio) in
           Inr (p1\<lparr>aim_error_m := err, target_y_m := fadd predicted_y err\<rparr>)))))
      else
        and_then (float_div (of_py_int SCREEN_HEIGHT) (of_py_int 2)) (\<lambda>centre.
          (let err = fmul (rand_aim_error_m r) (round_f (3 / 10)) in
           Inr (p1\<lparr>aim_error_m := err, target_y_m := fadd centre err\<rparr>))))"

definition ai_track_m :: "pyfloat \<Rightarrow> Paddle_m \<Rightarrow> py_error + Paddle_m" where
  "ai_track_m dt p =
     (let desired = fmul (fsub (target_y_m p) (of_py_int (get_centery (rect_pm p))))
                      (round_f (22 / 100));
          max_step = fmul (of_py_int (speed_pm p)) dt;
          step = clamp_f desired (fneg max_step) max_step
      in and_then (float_int (fadd (of_py_int (get_centery (rect_pm p))) step)) (\<lambda>n.
         and_then (rect_assign set_centery n (rect_pm p)) (\<lambda>r1.
         and_then (rect_assign set_top (max 0 (get_top r1)) r1) (\<lambda>r2.
         and_then (rect_assign set_bottom (min SCREEN_HEIGHT (get_bottom r2)) r2) (\<lambda>r3.
         Inr (p\<lparr>rect_pm := r3\<rparr>))))))"

definition update_ai_m :: "pyfloat \<Rightarrow> Rand_m \<Rightarrow> Ball_m \<Rightarrow> Paddle_m \<Rightarrow> py_error + Paddle_m" where
  "update_ai_m dt r bl p =
     (let p0 = p\<lparr>reaction_timer_m := fadd (reaction_timer_m p) (fmul dt (Fin 1000))\<rparr> in
      and_then
        (if fge (reaction_timer_m p0) (next_reaction_at_m p0) then ai_retarget_m r bl p0
         else Inr p0)
        (ai_track_m dt))"

definition length_squared_m :: "Ball_m \<Rightarrow> pyfloat" where
  "length_squared_m b =
     fadd (fmul (velocity_x_m b) (velocity_x_m b)) (fmul (velocity_y_m b) (velocity_y_m b))"

definition Ball_init_m :: "int \<Rightarrow> int \<Rightarrow> int \<times> int \<Rightarrow> Ball_m" where
  "Ball_init_m choice now center =
     \<lparr>rect_bm = set_center center
                  \<lparr>rect_x = 0, rect_y = 0, rect_w = BALL_SIZE, rect_h = BALL_SIZE\<rparr>,
      velocity_x_m = Fin 0, velocity_y_m = Fin 0,
      speed_bm = BALL_SPEED,
      serve_dir_m = choice,
      serve_time_m = now + SERVE_DELAY\<rparr>"

definition serve_if_ready_m :: "int \<Rightarrow> Rand_m \<Rightarrow> Ball_m \<Rightarrow> py_error + Ball_m" where
  "serve_if_ready_m now r b =
     (if feq (length_squared_m b) (Fin 0) \<and> now \<ge> serve_time_m b then
        and_then (float_cos (serve_angle_m r)) (\<lambda>c.
        and_then (float_sin (serve_angle_m r)) (\<lambda>s.
          Inr (b\<lparr>velocity_x_m := copysign_f (fmul (of_py_int (speed_bm b)) c) (serve_dir_m b),
                 velocity_y_m := fmul (of_py_int (speed_bm b)) s\<rparr>)))
      else Inr b)"

definition reset_m :: "int \<Rightarrow> int \<Rightarrow> Ball_m \<Rightarrow> py_error + Ball_m" where
  "reset_m scorer_dir now b =
     and_then (rect_assign_center (SCREEN_WIDTH div 2, SCREEN_HEIGHT div 2) (rect_bm b)) (\<lambda>rc.
       Inr (b\<lparr>rect_bm := rc,
              speed_bm := BALL_SPEED,
              velocity_x_m := Fin 0, velocity_y_m := Fin 0,
              serve_dir_m := scorer_dir,
              serve_time_m := now + SERVE_DELAY\<rparr>))"

definition bounce_off_paddle_m ::
  "Rand_m \<Rightarrow> Paddle_m \<Rightarrow> bool \<Rightarrow> Ball_m \<Rightarrow> py_error + Ball_m" where
  "bounce_off_paddle_m r paddle is_left b =
     and_then (float_div (of_py_int PADDLE_HEIGHT) (of_py_int 2)) (\<lambda>half.
     and_then (float_div
                 (of_py_int (get_centery (rect_bm b) - get_centery (rect_pm paddle))) half)
       (\<lambda>offset0.
       (let offset = clamp_f offset0 (Fin (- 1)) (Fin 1);
            angle = fmul offset (round_f (9 / 10));
            speed = min BALL_SPEED_MAX (speed_bm b + BALL_SPEED_INCREMENT);
            direction = (if \<not> is_left then 1 else - 1)
        in and_then (float_cos angle) (\<lambda>c.
           and_then (float_sin angle) (\<lambda>s.
           and_then (if is_left
                     then rect_assign set_left (get_right (rect_pm paddle)) (rect_bm b)
                     else rect_assign set_right (get_left (rect_pm paddle)) (rect_bm b)) (\<lambda>rc.
             Inr (b\<lparr>speed_bm := speed, rect_bm := rc,
                    velocity_x_m := fmul (of_py_int (direction * speed)) c,
                    velocity_y_m := fadd (fmul (of_py_int speed) s) (jitter_m r)\<rparr>)))))))"

definition integrate_m :: "pyfloat \<Rightarrow> Ball_m \<Rightarrow> py_error + Ball_m" where
  "integrate_m dt b =
     and_then (float_int (fmul (velocity_x_m b) dt)) (\<lambda>nx.
     and_then (rect_assign set_x (rect_x (rect_bm b) + nx) (rect_bm b)) (\<lambda>r1.
     and_then (float_int (fmul (velocity_y_m b) dt)) (\<lambda>ny.
     and_then (rect_assign set_y (rect_y r1 + ny) r1) (\<lambda>r2.
       Inr (b\<lparr>rect_bm := r2\<rparr>)))))"

definition collide_walls_m :: "Ball_m \<Rightarrow> py_error + Ball_m" where
  "collide_walls_m b =
     (if get_top (rect_bm b) \<le> 0 then
        and_then (rect_assign set_top 0 (rect_bm b)) (\<lambda>rc.
          Inr (b\<lparr>rect_bm := rc, velocity_y_m := fmul (velocity_y_m b) (of_py_int (- 1))\<rparr>))
      else if get_bottom (rect_bm b) \<ge> SCREEN_HEIGHT then
        and_then (rect_assign set_bottom SCREEN_HEIGHT (rect_bm b)) (\<lambda>rc.
          Inr (b\<lparr>rect_bm := rc, velocity_y_m := fmul (velocity_y_m b) (of_py_int (- 1))\<rparr>))
      else Inr b)"

definition collide_paddles_m ::
  "Rand_m \<Rightarrow> Paddle_m \<Rightarrow> Paddle_m \<Rightarrow> Ball_m \<Rightarrow> py_error + Ball_m" where
  "collide_paddles_m r lp rp b =
     (if colliderect (rect_bm b) (rect_pm lp) \<and> flt (velocity_x_m b) (Fin 0) then
        bounce_off_paddle_m r lp True b
      else if colliderect (rect_bm b) (rect_pm rp) \<and> fgt (velocity_x_m b) (Fin 0) then
        bounce_off_paddle_m r rp False b
      else Inr b)"

definition out_of_bounds_m :: "Ball_m \<Rightarrow> int" where
  "out_of_bounds_m b =
     (if get_right (rect_bm b) < 0 then 1
      else if get_left (rect_bm b) > SCREEN_WIDTH then - 1
      else 0)"

definition update_m ::
  "pyfloat \<Rightarrow> int \<Rightarrow> Rand_m \<Rightarrow> Paddle_m \<Rightarrow> Paddle_m \<Rightarrow> Ball_m \<Rightarrow> py_error + Ball_m \<times> int" where
  "update_m dt now r lp rp b =
     and_then (serve_if_ready_m now r b) (\<lambda>b1.
       if feq (length_squared_m b1) (Fin 0) then Inr (b1, 0)
       else
         and_then (integrate_m dt b1) (\<lambda>b2.
         and_then (collide_walls_m b2) (\<lambda>b3.
         and_then (collide_paddles_m r lp rp b3) (\<lambda>b4.
           Inr (b4, out_of_bounds_m b4)))))"

record Match_m =
  left_paddle_m :: Paddle_m
  right_paddle_m :: Paddle_m
  ball_m :: Ball_m
  left_score_m :: int
  right_score_m :: int
  running_m :: bool

record Frame_input_m =
  frame_dt_m :: pyfloat
  quit_event_m :: bool
  key_up_m :: bool
  key_down_m :: bool
  ticks_update_m :: int
  ticks_reset_m :: int
  draws_m :: Rand_m

definition initial_match_m :: "Rand_m \<Rightarrow> int \<Rightarrow> int \<Rightarrow> Match_m" where
  "initial_match_m r choice now =
     \<lparr>left_paddle_m =
        Paddle_init_m r PADDLE_MARGIN (SCREEN_HEIGHT div 2 - PADDLE_HEIGHT div 2) False,
      right_paddle_m =
        Paddle_init_m r (SCREEN_WIDTH - PADDLE_MARGIN - PADDLE_WIDTH)
          (SCREEN_HEIGHT div 2 - PADDLE_HEIGHT div 2) True,
      ball_m = Ball_init_m choice now (SCREEN_WIDTH div 2, SCREEN_HEIGHT div 2),
      left_score_m = 0, right_score_m = 0, running_m = True\<rparr>"

definition apply_score_m :: "int \<Rightarrow> int \<Rightarrow> Match_m \<Rightarrow> py_error + Match_m" where
  "apply_score_m score_dir now m =
     (if score_dir \<noteq> 0 then
        (if score_dir > 0 then
           and_then (reset_m 1 now (ball_m m)) (\<lambda>b.
             Inr (m\<lparr>left_score_m := left_score_m m + 1, ball_m := b\<rparr>))
         else
           and_then (reset_m (- 1) now (ball_m m)) (\<lambda>b.
             Inr (m\<lparr>right_score_m := right_score_m m + 1, ball_m := b\<rparr>)))
      else Inr m)"

definition win_banner_m :: "Match_m \<Rightarrow> Match_m" where
  "win_banner_m m =
     (if left_score_m m \<ge> SCORE_TO_WIN \<or> right_score_m m \<ge> SCORE_TO_WIN then
        m\<lparr>ball_m := (ball_m m)\<lparr>velocity_x_m := Fin 0, velocity_y_m := Fin 0\<rparr>\<rparr>
      else m)"

definition frame_m :: "Frame_input_m \<Rightarrow> Match_m \<Rightarrow> py_error + Match_m" where
  "frame_m i m =
     (let m0 = (if quit_event_m i then m\<lparr>running_m := False\<rparr> else m) in
      and_then (update_player_m (frame_dt_m i) (key_up_m i) (key_down_m i) (left_paddle_m m0))
        (\<lambda>lp.
      and_then (update_ai_m (frame_dt_m i) (draws_m i) (ball_m m0) (right_paddle_m m0)) (\<lambda>rp.
      and_then (update_m (frame_dt_m i) (ticks_update_m i) (draws_m i) lp rp (ball_m m0))
        (\<lambda>(b, score_dir).
      and_then (apply_score_m score_dir (ticks_reset_m i)
                  (m0\<lparr>left_paddle_m := lp, right_paddle_m := rp, ball_m := b\<rparr>)) (\<lambda>m1.
        Inr (win_banner_m m1))))))"

fun run_m :: "Frame_input_m list \<Rightarrow> Match_m \<Rightarrow> py_error + Match_m" where
  "run_m [] m = Inr m"
| "run_m (i # rest) m =
     (if running_m m then and_then (frame_m i m) (run_m rest) else Inr m)"

subsection \<open>The inputs and states of a match\<close>

text \<open>
  \<open>fin_le x n\<close>: the float \<open>x\<close> is finite, of magnitude at most \<open>n\<close>; \<open>draw_in x lo hi\<close>:
  it is finite and lies in \<open>[lo, hi]\<close>. A frame's input is in order when the frame time
  is between 0 and a million seconds and the draws are in the ranges the source draws
  them from. \<open>match_ok\<close> is the invariant of the states of a match: the paddles on the
  screen, of the regular size and speed; the ball of the regular size, on the screen or
  at most its own width beyond the left edge, its speed between \<open>BALL_SPEED\<close> and
  \<open>BALL_SPEED_MAX\<close> and its velocity bounded accordingly.
\<close>

definition fin_le :: "pyfloat \<Rightarrow> int \<Rightarrow> bool" where
  "fin_le x n = (case x of Fin a \<Rightarrow> \<bar>a\<bar> \<le> of_int n | PInf \<Rightarrow> False | NInf \<Rightarrow> False | NaN \<Rightarrow> False)"

definition draw_in :: "pyfloat \<Rightarrow> real \<Rightarrow> real \<Rightarrow> bool" where
  "draw_in x lo hi =
     (case x of Fin a \<Rightarrow> lo \<le> a \<and> a \<le> hi | PInf \<Rightarrow> False | NInf \<Rightarrow> False | NaN \<Rightarrow> False)"

definition dt_ok :: "pyfloat \<Rightarrow> bool" where
  "dt_ok t = draw_in t 0 1000000"

definition rand_ok_m :: "Rand_m \<Rightarrow> bool" where
  "rand_ok_m r =
     (draw_in (reaction_delay_m r) 80 160
      \<and> draw_in (aim_magnitude_m r) 10 48
      \<and> (aim_sign_m r = Fin (- 1) \<or> aim_sign_m r = Fin 1)
      \<and> draw_in (serve_angle_m r) (- (35 / 100)) (35 / 100)
      \<and> draw_in (jitter_m r) (- 8) 8)"

definition input_ok :: "Frame_input_m \<Rightarrow> bool" where
  "input_ok i = (dt_ok (frame_dt_m i) \<and> rand_ok_m (draws_m i))"

definition paddle_ok :: "Paddle_m \<Rightarrow> bool" where
  "paddle_ok p =
     (rect_w (rect_pm p) = PADDLE_WIDTH \<and> rect_h (rect_pm p) = PADDLE_HEIGHT
      \<and> 0 \<le> rect_x (rect_pm p) \<and> rect_x (rect_pm p) \<le> SCREEN_WIDTH
      \<and> 0 \<le> rect_y (rect_pm p) \<and> rect_y (rect_pm p) \<le> SCREEN_HEIGHT - PADDLE_HEIGHT
      \<and> 0 \<le> speed_pm p \<and> speed_pm p \<le> PADDLE_SPEED)"

definition ball_moving :: "Ball_m \<Rightarrow> bool" where
  "ball_moving b =
     (rect_w (rect_bm b) = BALL_SIZE \<and> rect_h (rect_bm b) = BALL_SIZE
      \<and> fin_le (velocity_x_m b) BALL_SPEED_MAX \<and> fin_le (velocity_y_m b) (BALL_SPEED_MAX + 8)
      \<and> BALL_SPEED \<le> speed_bm b \<and> speed_bm b \<le> BALL_SPEED_MAX)"

definition ball_ok :: "Ball_m \<Rightarrow> bool" where
  "ball_ok b =
     (ball_moving b
      \<and> - BALL_SIZE \<le> rect_x (rect_bm b) \<and> rect_x (rect_bm b) \<le> SCREEN_WIDTH
      \<and> 0 \<le> rect_y (rect_bm b) \<and> rect_y (rect_bm b) \<le> SCREEN_HEIGHT - BALL_SIZE)"

definition match_ok :: "Match_m \<Rightarrow> bool" where
  "match_ok m =
     (paddle_ok (left_paddle_m m) \<and> paddle_ok (right_paddle_m m) \<and> ball_ok (ball_m m))"

definition no_zero_division :: "py_error + 'a \<Rightarrow> bool" where
  "no_zero_division x = (x \<noteq> Inl ZeroDivisionError)"

text \<open>Concrete inputs for the evaluations below.\<close>

definition draws0_m :: Rand_m where
  "draws0_m =
     \<lparr>reaction_delay_m = Fin 100, aim_magnitude_m = Fin 20, aim_sign_m = Fin 1,
      serve_angle_m = Fin 0, jitter_m = Fin 0\<rparr>"

definition frame_at_m :: "real \<Rightarrow> int \<Rightarrow> Frame_input_m" where
  "frame_at_m d now =
     \<lparr>frame_dt_m = Fin d, quit_event_m = False, key_up_m = False, key_down_m = False,
      ticks_update_m = now, ticks_reset_m = now, draws_m = draws0_m\<rparr>"


section \<open>Properties\<close>

subsection \<open>Helper facts\<close>

lemmas eval_defs =
  update_def serve_if_ready_def length_squared_def integrate_def collide_walls_def
  collide_paddles_def colliderect_def out_of_bounds_def bounce_off_paddle_def py_int_def
  py_div_def Let_def rect_defs config_defs initial_match_def Paddle_init_def Ball_init_def
  draws0_def ball_at_def rand_reaction_delay_def rand_aim_error_def

lemmas eval_frame_defs =
  eval_defs frame_def frame_at_def match_point_def update_player_def update_ai_def
  ai_retarget_def ai_track_def clamp_def apply_score_def win_banner_def reset_def
  copysign_def observe_def


lemma cos_serve_angle:
  assumes "- (35 / 100) \<le> a" "a \<le> 35 / 100"
  shows "0 < cos (a::real)"
proof -
  have "2 \<le> pi" by (rule pi_ge_two)
  then have "- (pi / 2) < a" "a < pi / 2" using assms by linarith+
  then show ?thesis by (rule cos_gt_zero_pi)
qed

text \<open>The paddles.\<close>

lemma update_player_in_bounds: "paddle_in_bounds (update_player dt up down p)"
  by (simp add: paddle_in_bounds_def update_player_def Let_def rect_defs config_defs)

lemma ai_track_in_bounds:
  assumes "rect_h (p_rect p) = PADDLE_HEIGHT"
  shows "paddle_in_bounds (ai_track dt p) \<and> rect_h (p_rect (ai_track dt p)) = PADDLE_HEIGHT"
  using assms
  by (simp add: paddle_in_bounds_def ai_track_def Let_def rect_defs config_defs)

lemma reflect_off_bounds_total: "\<exists>v. reflect_off_bounds y lo hi = Inr v"
proof (cases "hi - lo \<le> 0")
  case True
  then show ?thesis by (simp add: reflect_off_bounds_def)
next
  case False
  then have "py_mod (y - lo) (2 * (hi - lo))
               = Inr (y - lo - 2 * (hi - lo) * of_int \<lfloor>(y - lo) / (2 * (hi - lo))\<rfloor>)"
    by (simp add: py_mod_def)
  then show ?thesis using False by (simp add: reflect_off_bounds_def Let_def)
qed

lemma ai_retarget_total:
  "\<exists>p'. ai_retarget r b p = Inr p' \<and> p_rect p' = p_rect p \<and> p_speed p' = p_speed p"
proof (cases "velocity_x b > 0")
  case True
  obtain v where v:
    "reflect_off_bounds
       (of_int (get_centery (b_rect b))
          + velocity_y b * (of_int (get_left (p_rect p) - get_right (b_rect b)) / velocity_x b)
              * AI_LOOKAHEAD_FACTOR)
       (of_int (BALL_SIZE div 2))
       (of_int (SCREEN_HEIGHT - BALL_SIZE div 2)) = Inr v"
    using reflect_off_bounds_total by blast
  show ?thesis using True v
    by (simp add: ai_retarget_def Let_def py_div_def BALL_SPEED_MAX_def)
next
  case False
  then show ?thesis by (simp add: ai_retarget_def Let_def)
qed

lemma update_ai_total:
  "\<exists>p'. update_ai dt r b p = Inr p'
        \<and> (rect_h (p_rect p) = PADDLE_HEIGHT
             \<longrightarrow> paddle_in_bounds p' \<and> rect_h (p_rect p') = PADDLE_HEIGHT)"
proof -
  let ?p0 = "p\<lparr>reaction_timer := reaction_timer p + dt * 1000\<rparr>"
  obtain p2 where p2:
    "(if reaction_timer ?p0 \<ge> next_reaction_at ?p0 then ai_retarget r b ?p0 else Inr ?p0)
       = Inr p2"
    "p_rect p2 = p_rect p"
    using ai_retarget_total [of r b ?p0]
    by (cases "reaction_timer ?p0 \<ge> next_reaction_at ?p0") auto
  have "update_ai dt r b p = Inr (ai_track dt p2)"
    using p2(1) by (simp add: update_ai_def Let_def)
  then show ?thesis using ai_track_in_bounds [of p2 dt] p2(2) by simp
qed

text \<open>The ball: every stage returns, and none resizes the rectangle.\<close>

lemma bounce_off_paddle_total:
  "\<exists>b'. bounce_off_paddle r p is_left b = Inr b'
     \<and> rect_w (b_rect b') = rect_w (b_rect b) \<and> rect_h (b_rect b') = rect_h (b_rect b)"
  by (simp add: bounce_off_paddle_def py_div_def Let_def PADDLE_HEIGHT_def rect_defs)

lemma collide_paddles_total:
  "\<exists>b'. collide_paddles r lp rp b = Inr b'
     \<and> rect_w (b_rect b') = rect_w (b_rect b) \<and> rect_h (b_rect b') = rect_h (b_rect b)"
  using bounce_off_paddle_total [of r lp True b] bounce_off_paddle_total [of r rp False b]
  by (auto simp: collide_paddles_def)

lemma integrate_size:
  "rect_w (b_rect (integrate dt b)) = rect_w (b_rect b)
   \<and> rect_h (b_rect (integrate dt b)) = rect_h (b_rect b)"
  by (simp add: integrate_def Let_def)

lemma collide_walls_size:
  "rect_w (b_rect (collide_walls b)) = rect_w (b_rect b)
   \<and> rect_h (b_rect (collide_walls b)) = rect_h (b_rect b)"
  by (simp add: collide_walls_def rect_defs)

lemma serve_if_ready_rect: "b_rect (serve_if_ready now r b) = b_rect b"
  by (simp add: serve_if_ready_def Let_def)

lemma update_total:
  "\<exists>b' s. update dt now r lp rp b = Inr (b', s)
     \<and> rect_w (b_rect b') = rect_w (b_rect b) \<and> rect_h (b_rect b') = rect_h (b_rect b)
     \<and> (s = 0 \<or> s = out_of_bounds b')"
proof -
  let ?b1 = "serve_if_ready now r b"
  show ?thesis
  proof (cases "length_squared ?b1 = 0")
    case True
    then show ?thesis by (simp add: update_def Let_def serve_if_ready_rect)
  next
    case False
    obtain b4 where b4: "collide_paddles r lp rp (collide_walls (integrate dt ?b1)) = Inr b4"
      "rect_w (b_rect b4) = rect_w (b_rect (collide_walls (integrate dt ?b1)))"
      "rect_h (b_rect b4) = rect_h (b_rect (collide_walls (integrate dt ?b1)))"
      using collide_paddles_total by blast
    then show ?thesis using False
      by (simp add: update_def Let_def collide_walls_size integrate_size serve_if_ready_rect)
  qed
qed

lemma serve_direction:
  assumes "- (35 / 100) \<le> serve_angle r" "serve_angle r \<le> 35 / 100"
      and "length_squared b = 0" "serve_time b \<le> now" "0 < b_speed b"
  shows "(serve_dir b = 1 \<longrightarrow> 0 < velocity_x (serve_if_ready now r b))
       \<and> (serve_dir b = - 1 \<longrightarrow> velocity_x (serve_if_ready now r b) < 0)"
proof -
  have "0 < of_int (b_speed b) * cos (serve_angle r)"
    using assms(5) cos_serve_angle [OF assms(1,2)] by simp
  then show ?thesis
    using assms(3,4) by (auto simp: serve_if_ready_def Let_def copysign_def)
qed

lemma update_waiting:
  assumes "length_squared b = 0" "now < serve_time b"
  shows "update dt now r lp rp b = Inr (b, 0)"
  using assms by (simp add: update_def serve_if_ready_def Let_def)

text \<open>The match loop.\<close>

lemma apply_score_paddles:
  "left_paddle (apply_score s now m) = left_paddle m
   \<and> right_paddle (apply_score s now m) = right_paddle m"
  by (simp add: apply_score_def)

lemma win_banner_paddles:
  "left_paddle (win_banner m) = left_paddle m \<and> right_paddle (win_banner m) = right_paddle m"
  by (simp add: win_banner_def)

lemma frame_total:
  "\<exists>m'. frame i m = Inr m'
     \<and> paddle_in_bounds (left_paddle m')
     \<and> (rect_h (p_rect (right_paddle m)) = PADDLE_HEIGHT \<longrightarrow>
          paddle_in_bounds (right_paddle m')
          \<and> rect_h (p_rect (right_paddle m')) = PADDLE_HEIGHT)"
proof -
  let ?m0 = "if quit_event i then m\<lparr>running := False\<rparr> else m"
  let ?lp = "update_player (frame_dt i) (key_up i) (key_down i) (left_paddle ?m0)"
  have rp0: "right_paddle ?m0 = right_paddle m" by simp
  obtain rp where rp:
    "update_ai (frame_dt i) (draws i) (ball ?m0) (right_paddle ?m0) = Inr rp"
    "rect_h (p_rect (right_paddle m)) = PADDLE_HEIGHT
       \<longrightarrow> paddle_in_bounds rp \<and> rect_h (p_rect rp) = PADDLE_HEIGHT"
    using update_ai_total [of "frame_dt i" "draws i" "ball ?m0" "right_paddle ?m0"] rp0
    by auto
  obtain b s where bs:
    "update (frame_dt i) (ticks_update i) (draws i) ?lp rp (ball ?m0) = Inr (b, s)"
    using update_total by blast
  have "frame i m
          = Inr (win_banner (apply_score s (ticks_reset i)
                   (?m0\<lparr>left_paddle := ?lp, right_paddle := rp, ball := b\<rparr>)))"
    using rp(1) bs unfolding frame_def Let_def by simp
  then show ?thesis
    using rp(2)
      update_player_in_bounds [of "frame_dt i" "key_up i" "key_down i" "left_paddle ?m0"]
    by (simp add: win_banner_paddles apply_score_paddles)
qed

lemma run_total:
  "\<exists>m'. run inputs m = Inr m' \<and> (paddles_ok m \<longrightarrow> paddles_ok m')"
proof (induction inputs arbitrary: m)
  case Nil
  show ?case by simp
next
  case (Cons i rest)
  show ?case
  proof (cases "running m")
    case False
    then show ?thesis by simp
  next
    case True
    obtain m1 where m1: "frame i m = Inr m1" "paddle_in_bounds (left_paddle m1)"
      "rect_h (p_rect (right_paddle m)) = PADDLE_HEIGHT \<longrightarrow>
          paddle_in_bounds (right_paddle m1)
          \<and> rect_h (p_rect (right_paddle m1)) = PADDLE_HEIGHT"
      using frame_total by blast
    obtain m' where m': "run rest m1 = Inr m'" "paddles_ok m1 \<longrightarrow> paddles_ok m'"
      using Cons.IH by blast
    show ?thesis using True m1 m' by (auto simp: paddles_ok_def)
  qed
qed

lemma initial_match_ok: "paddles_ok (initial_match r c now)"
  by (simp add: paddles_ok_def paddle_in_bounds_def initial_match_def Paddle_init_def
      Let_def rect_defs config_defs)

text \<open>Rounding: monotone, odd, and the identity on doubles.\<close>

lemma rne_of_int [simp]: "rne (of_int k) = k"
  by (simp add: rne_def)

lemma rne_cases: "rne x = \<lfloor>x\<rfloor> \<or> rne x = \<lfloor>x\<rfloor> + 1"
  by (simp add: rne_def Let_def)

lemma rne_lower: "\<lfloor>x\<rfloor> \<le> rne x"
  using rne_cases [of x] by linarith

lemma rne_upper: "rne x \<le> \<lceil>x\<rceil>"
proof (cases "x = of_int \<lfloor>x\<rfloor>")
  case True
  then have "rne x = \<lfloor>x\<rfloor>" by (metis rne_of_int)
  then show ?thesis by (simp add: floor_le_ceiling)
next
  case False
  then have "\<lceil>x\<rceil> = \<lfloor>x\<rfloor> + 1"
    by (metis ceiling_altdef)
  then show ?thesis using rne_cases [of x] by linarith
qed

lemma rne_mono:
  assumes "x \<le> y"
  shows "rne x \<le> rne y"
proof (cases "\<lfloor>x\<rfloor> = \<lfloor>y\<rfloor>")
  case True
  have "x - of_int \<lfloor>x\<rfloor> \<le> y - of_int \<lfloor>y\<rfloor>" using assms True by simp
  then show ?thesis using True by (auto simp: rne_def Let_def)
next
  case False
  then have "\<lfloor>x\<rfloor> < \<lfloor>y\<rfloor>" using floor_mono [OF assms] by linarith
  then have "rne x \<le> \<lfloor>y\<rfloor>" using rne_cases [of x] by linarith
  then show ?thesis using rne_lower [of y] by linarith
qed

lemma rne_minus: "rne (- x) = - rne x"
proof (cases "x = of_int \<lfloor>x\<rfloor>")
  case True
  then obtain k where "x = of_int k" ..
  then have "- x = of_int (- k)" by simp
  then have "rne (- x) = - k" by (metis rne_of_int)
  then show ?thesis using \<open>x = of_int k\<close> by simp
next
  case False
  define f where "f = \<lfloor>x\<rfloor>"
  define d where "d = x - of_int f"
  have c: "\<lceil>x\<rceil> = f + 1" using False by (metis ceiling_altdef f_def)
  have fm: "\<lfloor>- x\<rfloor> = - f - 1" using c by (simp add: ceiling_def)
  have dm: "- x - of_int (- f - 1) = 1 - d" by (simp add: d_def)
  have r: "rne x = (if d < 1 / 2 then f else if d > 1 / 2 then f + 1
                    else if even f then f else f + 1)"
    by (simp add: rne_def Let_def f_def d_def)
  have rm: "rne (- x) = (if 1 - d < 1 / 2 then - f - 1 else if 1 - d > 1 / 2 then - f
                    else if even (- f - 1) then - f - 1 else - f)"
    unfolding rne_def Let_def fm dm by simp
  consider "d < 1 / 2" | "d > 1 / 2" | "d = 1 / 2" by linarith
  then show ?thesis
  proof cases
    case 1
    then show ?thesis using r rm by simp
  next
    case 2
    then show ?thesis using r rm by simp
  next
    case 3
    then show ?thesis using r rm by simp
  qed
qed

lemma two_powr_int: "(2::real) powr of_int k = 2 powi k"
  by (simp add: powr_real_of_int')

lemma binade_bounds:
  assumes "x \<noteq> 0"
  shows "2 powi \<lfloor>log 2 \<bar>x\<bar>\<rfloor> \<le> \<bar>x\<bar> \<and> \<bar>x\<bar> < 2 powi (\<lfloor>log 2 \<bar>x\<bar>\<rfloor> + 1)"
proof -
  have "0 < \<bar>x\<bar>" using assms by simp
  then have "2 powr of_int \<lfloor>log 2 \<bar>x\<bar>\<rfloor> \<le> \<bar>x\<bar> \<and> \<bar>x\<bar> < 2 powr of_int (\<lfloor>log 2 \<bar>x\<bar>\<rfloor> + 1)"
    by (intro iffD1 [OF floor_log_eq_powr_iff]) auto
  then show ?thesis by (simp only: two_powr_int)
qed

lemma binade_eqI:
  assumes "2 powi e \<le> \<bar>x\<bar>" "\<bar>x\<bar> < 2 powi (e + 1)"
  shows "\<lfloor>log 2 \<bar>x\<bar>\<rfloor> = e"
proof -
  have "(0::real) < 2 powi e" by simp
  then have pos: "0 < \<bar>x\<bar>" using assms(1) by linarith
  have "2 powr of_int e \<le> \<bar>x\<bar> \<and> \<bar>x\<bar> < 2 powr of_int (e + 1)"
    using assms by (simp only: two_powr_int)
  then show ?thesis
    using pos by (intro iffD2 [OF floor_log_eq_powr_iff]) auto
qed

lemma fl_eval:
  assumes "2 powi e \<le> \<bar>x\<bar>" "\<bar>x\<bar> < 2 powi (e + 1)"
  shows "fl x = of_int (rne (x / 2 powi (max e (- 1022) - 52))) * 2 powi (max e (- 1022) - 52)"
proof -
  have "(0::real) < 2 powi e" by simp
  then have "0 < \<bar>x\<bar>" using assms(1) by linarith
  then have "x \<noteq> 0" by simp
  then show ?thesis using binade_eqI [OF assms] by (simp add: fl_def ulp_exp_def)
qed

lemma of_int_bound:
  assumes "\<bar>k\<bar> < 2 ^ 53"
  shows "\<bar>real_of_int k\<bar> < 2 ^ 53"
proof -
  have "real_of_int \<bar>k\<bar> < real_of_int (2 ^ 53)"
    using assms by (simp only: of_int_less_iff)
  then show ?thesis by simp
qed

lemma ulp_exp_gap: "max a (- 1022) - 52 + 1 \<le> max b (- 1022) - 52 \<Longrightarrow> - 1022 \<le> (b::int)"
  by linarith

lemma ulp_exp_minus [simp]: "ulp_exp (- x) = ulp_exp x"
  by (simp add: ulp_exp_def)

lemma fl_minus: "fl (- x) = - fl x"
  by (simp add: fl_def rne_minus)

lemma fl_0 [simp]: "fl 0 = 0"
  by (simp add: fl_def)

lemma fl_nonneg:
  assumes "0 \<le> x"
  shows "0 \<le> fl x"
proof -
  have "0 \<le> x / 2 powi ulp_exp x" using assms by simp
  then have "rne 0 \<le> rne (x / 2 powi ulp_exp x)" by (rule rne_mono)
  then have "0 \<le> rne (x / 2 powi ulp_exp x)" by (simp add: rne_def)
  then show ?thesis by (simp add: fl_def)
qed

lemma powi_less_cancel:
  assumes "(2::real) powi a < 2 powi b"
  shows "a < b"
proof (rule ccontr)
  assume "\<not> a < b"
  then have "b \<le> a" by simp
  then have "(2::real) powi b \<le> 2 powi a" by (intro power_int_increasing) auto
  then show False using assms by linarith
qed

lemma ulp_exp_bounds:
  assumes "x \<noteq> 0"
  shows "\<bar>x\<bar> < 2 powi (ulp_exp x + 53)"
    and "- 1022 \<le> \<lfloor>log 2 \<bar>x\<bar>\<rfloor> \<Longrightarrow> 2 powi (ulp_exp x + 52) \<le> \<bar>x\<bar>"
proof -
  let ?b = "\<lfloor>log 2 \<bar>x\<bar>\<rfloor>"
  have "?b + 1 \<le> ulp_exp x + 53" by (simp add: ulp_exp_def)
  then have "(2::real) powi (?b + 1) \<le> 2 powi (ulp_exp x + 53)"
    by (intro power_int_increasing) auto
  then show "\<bar>x\<bar> < 2 powi (ulp_exp x + 53)"
    using binade_bounds [OF assms] by linarith
  assume "- 1022 \<le> ?b"
  then have "ulp_exp x + 52 = ?b" by (simp add: ulp_exp_def)
  then show "2 powi (ulp_exp x + 52) \<le> \<bar>x\<bar>"
    using binade_bounds [OF assms] by simp
qed

lemma powi_split: "(2::real) powi (a + b) = 2 powi a * 2 powi b"
  by (simp add: power_int_add)

lemma scaled_lt:
  assumes "\<bar>x::real\<bar> < 2 powi (u + 53)"
  shows "\<bar>x / 2 powi u\<bar> < 2 ^ 53"
proof -
  have "\<bar>x\<bar> < 2 powi u * 2 ^ 53" using assms by (simp add: powi_split)
  then show ?thesis by (simp add: abs_divide field_simps)
 qed

lemma ulp_exp_mono:
  assumes "0 < x" "x \<le> y"
  shows "ulp_exp x \<le> ulp_exp y"
proof -
  have "log 2 \<bar>x\<bar> \<le> log 2 \<bar>y\<bar>" using assms by simp
  then have "\<lfloor>log 2 \<bar>x\<bar>\<rfloor> \<le> \<lfloor>log 2 \<bar>y\<bar>\<rfloor>" by (rule floor_mono)
  then show ?thesis by (simp add: ulp_exp_def)
qed

lemma fl_mono_pos:
  assumes "0 < x" "x \<le> y"
  shows "fl x \<le> fl y"
proof -
  have y: "0 < y" using assms by linarith
  have le: "ulp_exp x \<le> ulp_exp y" using assms by (rule ulp_exp_mono)
  show ?thesis
  proof (cases "ulp_exp x = ulp_exp y")
    case True
    have "x / 2 powi ulp_exp y \<le> y / 2 powi ulp_exp y"
      using assms(2) by (simp add: divide_right_mono)
    then have "rne (x / 2 powi ulp_exp y) \<le> rne (y / 2 powi ulp_exp y)" by (rule rne_mono)
    then show ?thesis using assms(1) y True by (simp add: fl_def)
  next
    case False
    then have lt: "ulp_exp x + 1 \<le> ulp_exp y" using le by linarith
    then have nb: "- 1022 \<le> \<lfloor>log 2 \<bar>y\<bar>\<rfloor>"
      unfolding ulp_exp_def by (rule ulp_exp_gap)
    \<comment> \<open>the rounded \<open>x\<close> is at most the top of its binade\<close>
    have "x / 2 powi ulp_exp x \<le> 2 ^ 53"
      using scaled_lt [OF ulp_exp_bounds(1), of x] assms(1) by simp
    then have "x / 2 powi ulp_exp x \<le> of_int (2 ^ 53)" by simp
    then have "rne (x / 2 powi ulp_exp x) \<le> rne (of_int (2 ^ 53))" by (rule rne_mono)
    then have "rne (x / 2 powi ulp_exp x) \<le> 2 ^ 53" by (simp only: rne_of_int)
    then have "real_of_int (rne (x / 2 powi ulp_exp x)) \<le> real_of_int (2 ^ 53)"
      by (simp only: of_int_le_iff)
    then have "real_of_int (rne (x / 2 powi ulp_exp x)) \<le> 2 ^ 53" by simp
    then have "fl x \<le> 2 ^ 53 * 2 powi ulp_exp x"
      using assms(1) by (simp add: fl_def mult_right_mono)
    also have "\<dots> = 2 powi (ulp_exp x + 53)" by (simp add: powi_split)
    also have "\<dots> \<le> 2 powi (ulp_exp y + 52)"
      using lt by (intro power_int_increasing) auto
    finally have a: "fl x \<le> 2 powi (ulp_exp y + 52)" .
    \<comment> \<open>the rounded \<open>y\<close> is at least the bottom of its binade\<close>
    have "2 powi (ulp_exp y + 52) \<le> y" using ulp_exp_bounds(2) [OF _ nb] y by simp
    then have "2 ^ 52 * 2 powi ulp_exp y \<le> y" by (simp add: powi_split mult.commute)
    then have "2 ^ 52 \<le> y / 2 powi ulp_exp y" by (simp add: field_simps)
    then have "of_int (2 ^ 52) \<le> y / 2 powi ulp_exp y" by simp
    then have "rne (of_int (2 ^ 52)) \<le> rne (y / 2 powi ulp_exp y)" by (rule rne_mono)
    then have "2 ^ 52 \<le> rne (y / 2 powi ulp_exp y)" by (simp only: rne_of_int)
    then have "real_of_int (2 ^ 52) \<le> real_of_int (rne (y / 2 powi ulp_exp y))"
      by (simp only: of_int_le_iff)
    then have "(2::real) ^ 52 \<le> real_of_int (rne (y / 2 powi ulp_exp y))" by simp
    then have "2 ^ 52 * 2 powi ulp_exp y \<le> fl y"
      using y by (simp add: fl_def mult_right_mono)
    then have "2 powi (ulp_exp y + 52) \<le> fl y" by (simp add: powi_split mult.commute)
    then show ?thesis using a by linarith
  qed
qed

lemma fl_mono:
  assumes "x \<le> y"
  shows "fl x \<le> fl y"
proof -
  consider "0 < x" | "x \<le> 0" "0 \<le> y" | "y < 0" using assms by linarith
  then show ?thesis
  proof cases
    case 1
    then show ?thesis using assms by (rule fl_mono_pos)
  next
    case 2
    have "fl x \<le> 0" using fl_nonneg [of "- x"] 2(1) by (simp add: fl_minus)
    then show ?thesis using fl_nonneg [OF 2(2)] by linarith
  next
    case 3
    then have "fl (- y) \<le> fl (- x)" using assms by (intro fl_mono_pos) auto
    then show ?thesis by (simp add: fl_minus)
  qed
qed

lemma fl_fixes:
  assumes "x = of_int k * 2 powi u" "\<bar>k\<bar> < 2 ^ 53" "- 1074 \<le> u"
  shows "fl x = x"
proof (cases "x = 0")
  case True
  then show ?thesis by simp
next
  case False
  define u' where "u' = ulp_exp x"
  have "\<bar>real_of_int k\<bar> < 2 ^ 53"
    using assms(2) by (rule of_int_bound)
  then have "\<bar>x\<bar> < 2 ^ 53 * 2 powi u"
    by (simp add: assms(1) abs_mult)
  then have "\<bar>x\<bar> < 2 powi (u + 53)" by (simp add: powi_split)
  then have "2 powi \<lfloor>log 2 \<bar>x\<bar>\<rfloor> < (2::real) powi (u + 53)"
    using binade_bounds [OF False] by linarith
  then have "\<lfloor>log 2 \<bar>x\<bar>\<rfloor> < u + 53" by (rule powi_less_cancel)
  then have le: "u' \<le> u" using assms(3) by (simp add: ulp_exp_def u'_def)
  have "(2::real) powi u = 2 powi (u' + (u - u'))" by simp
  also have "\<dots> = 2 powi u' * 2 powi (u - u')" by (rule powi_split)
  also have "\<dots> = 2 powi u' * 2 ^ nat (u - u')" using le by (simp add: power_int_def)
  finally have p: "(2::real) powi u = 2 powi u' * 2 ^ nat (u - u')" .
  have x2: "x = of_int (k * 2 ^ nat (u - u')) * 2 powi u'"
    using assms(1) p by simp
  have "(2::real) powi u' \<noteq> 0" by simp
  then have "x / 2 powi u' = of_int (k * 2 ^ nat (u - u'))"
    using x2 by (metis nonzero_mult_div_cancel_right)
  then have "rne (x / 2 powi u') = k * 2 ^ nat (u - u')" by (simp only: rne_of_int)
  then have "fl x = of_int (k * 2 ^ nat (u - u')) * 2 powi u'"
    using False by (simp add: fl_def u'_def)
  then show ?thesis using x2 by simp
qed

lemma fl_of_int:
  assumes "\<bar>n\<bar> < 2 ^ 53"
  shows "fl (of_int n) = of_int n"
  using fl_fixes [of "of_int n" n 0] assms by simp

lemma fl_abs_le:
  assumes "\<bar>x\<bar> \<le> of_int n" "\<bar>n\<bar> < 2 ^ 53"
  shows "\<bar>fl x\<bar> \<le> of_int n"
proof -
  have "fl x \<le> fl (of_int n)" using assms(1) by (intro fl_mono) linarith
  moreover have "fl (- of_int n) \<le> fl x" using assms(1) by (intro fl_mono) linarith
  ultimately show ?thesis by (simp add: fl_minus fl_of_int [OF assms(2)])
qed

lemma round_f_fin:
  assumes "\<bar>fl r\<bar> < 2 ^ 1024"
  shows "round_f r = Fin (fl r)"
  using assms by (simp add: round_f_def Let_def)

lemma round_f_small:
  assumes "\<bar>r\<bar> \<le> of_int n" "\<bar>n\<bar> < 2 ^ 53"
  shows "round_f r = Fin (fl r)"
proof -
  have "\<bar>fl r\<bar> \<le> of_int n" using assms by (rule fl_abs_le)
  moreover have "real_of_int n < 2 ^ 53" using of_int_bound [OF assms(2)] by linarith
  moreover have "(2::real) ^ 53 < 2 ^ 1024" by simp
  ultimately have "\<bar>fl r\<bar> < 2 ^ 1024" by linarith
  then show ?thesis by (rule round_f_fin)
qed

lemma fl_DBL_MAX: "fl DBL_MAX = DBL_MAX"
proof -
  have "DBL_MAX = of_int (2 ^ 53 - 1) * 2 powi 971"
    by (simp add: DBL_MAX_def)
  then show ?thesis by (rule fl_fixes) simp_all
qed

lemma fl_top: "fl (DBL_MAX + 2 ^ 51) = DBL_MAX"
  unfolding DBL_MAX_def
  by (subst fl_eval [where e = 1023]) (simp_all add: rne_def)

lemma double_le_DBL_MAX:
  assumes "fl y = y" "\<bar>y\<bar> < 2 ^ 1024"
  shows "\<bar>y\<bar> \<le> DBL_MAX"
proof (cases "y = 0")
  case True
  then show ?thesis by (simp add: DBL_MAX_def)
next
  case False
  define u where "u = ulp_exp y"
  define k where "k = rne (y / 2 powi u)"
  have y: "y = of_int k * 2 powi u"
    using assms(1) False by (simp add: fl_def u_def k_def)
  have "\<bar>y\<bar> < 2 powi (u + 53)" using ulp_exp_bounds(1) [OF False] by (simp add: u_def)
  then have "\<bar>real_of_int k * 2 powi u\<bar> < 2 ^ 53 * 2 powi u"
    using y by (simp add: powi_split mult.commute)
  then have "\<bar>real_of_int k\<bar> * 2 powi u < 2 ^ 53 * 2 powi u"
    by (simp add: abs_mult)
  then have "\<bar>real_of_int k\<bar> < 2 ^ 53" by simp
  then have "real_of_int \<bar>k\<bar> < real_of_int (2 ^ 53)" by simp
  then have "\<bar>k\<bar> < 2 ^ 53" by (simp only: of_int_less_iff)
  then have "\<bar>k\<bar> \<le> 2 ^ 53 - 1" by linarith
  then have "real_of_int \<bar>k\<bar> \<le> real_of_int (2 ^ 53 - 1)" by (simp only: of_int_le_iff)
  then have kb: "\<bar>real_of_int k\<bar> \<le> 2 ^ 53 - 1" by simp
  have "2 powi \<lfloor>log 2 \<bar>y\<bar>\<rfloor> < (2::real) powi 1024"
    using binade_bounds [OF False] assms(2) by simp
  then have "\<lfloor>log 2 \<bar>y\<bar>\<rfloor> < 1024" by (rule powi_less_cancel)
  then have "u \<le> 971" by (simp add: u_def ulp_exp_def)
  then have "(2::real) powi u \<le> 2 powi 971" by (intro power_int_increasing) auto
  then have ub: "(2::real) powi u \<le> 2 ^ 971" by simp
  have "\<bar>y\<bar> = \<bar>real_of_int k\<bar> * 2 powi u" by (subst y) (simp add: abs_mult)
  also have "\<dots> \<le> (2 ^ 53 - 1) * 2 powi u"
    using kb by (intro mult_right_mono) auto
  also have "\<dots> \<le> (2 ^ 53 - 1) * 2 ^ 971"
    using ub by (intro mult_left_mono) auto
  finally show ?thesis by (simp add: DBL_MAX_def)
qed

lemma round_f_near_double:
  assumes "fl y = y" "\<bar>y\<bar> < 2 ^ 1024" "\<bar>c\<bar> \<le> 2 ^ 51"
  shows "round_f (y + c) = Fin (fl (y + c))"
proof -
  have "\<bar>y + c\<bar> \<le> DBL_MAX + 2 ^ 51"
    using double_le_DBL_MAX [OF assms(1,2)] assms(3) by linarith
  then have "fl (y + c) \<le> fl (DBL_MAX + 2 ^ 51)" "fl (- (DBL_MAX + 2 ^ 51)) \<le> fl (y + c)"
    by (intro fl_mono; linarith)+
  moreover have "fl (- (DBL_MAX + 2 ^ 51)) = - DBL_MAX" by (simp only: fl_minus fl_top)
  ultimately have "\<bar>fl (y + c)\<bar> \<le> DBL_MAX" using fl_top by linarith
  moreover have "DBL_MAX < 2 ^ 1024" by (simp add: DBL_MAX_def)
  ultimately have "\<bar>fl (y + c)\<bar> < 2 ^ 1024" by linarith
  then show ?thesis by (rule round_f_fin)
qed

lemma fmod_range:
  assumes "0 < w"
  shows "\<bar>a - w * of_int (py_int (a / w))\<bar> < w"
    and "0 \<le> a \<Longrightarrow> 0 \<le> a - w * of_int (py_int (a / w))"
    and "a \<le> 0 \<Longrightarrow> a - w * of_int (py_int (a / w)) \<le> 0"
proof -
  have fl1: "of_int \<lfloor>a / w\<rfloor> * w \<le> a" "a < (of_int \<lfloor>a / w\<rfloor> + 1) * w"
    using assms floor_divide_lower floor_divide_upper by blast+
  have ce1: "a \<le> of_int \<lceil>a / w\<rceil> * w" "(of_int \<lceil>a / w\<rceil> - 1) * w < a"
    using assms ceiling_divide_lower ceiling_divide_upper by blast+
  have s: "0 \<le> a \<longleftrightarrow> 0 \<le> a / w" using assms by (simp add: zero_le_divide_iff)
  show "0 \<le> a \<Longrightarrow> 0 \<le> a - w * of_int (py_int (a / w))"
    using fl1 s by (simp add: py_int_def algebra_simps)
  show "a \<le> 0 \<Longrightarrow> a - w * of_int (py_int (a / w)) \<le> 0"
  proof -
    assume a: "a \<le> 0"
    show ?thesis
    proof (cases "a = 0")
      case True
      then show ?thesis by (simp add: py_int_def)
    next
      case False
      then have "\<not> 0 \<le> a / w" using a s by simp
      then show ?thesis using ce1 by (simp add: py_int_def algebra_simps)
    qed
  qed
  show "\<bar>a - w * of_int (py_int (a / w))\<bar> < w"
  proof (cases "0 \<le> a")
    case True
    then show ?thesis using fl1 s by (simp add: py_int_def algebra_simps abs_if)
  next
    case False
    then have "\<not> 0 \<le> a / w" using s by simp
    then show ?thesis using ce1 by (simp add: py_int_def algebra_simps abs_if)
  qed
qed

lemma fmod_small:
  assumes "0 \<le> a" "a < w"
  shows "a - w * of_int (py_int (a / w)) = a"
proof -
  have "0 < w" using assms by linarith
  then have "\<lfloor>a / w\<rfloor> = 0" using assms by (simp add: floor_eq_iff)
  then show ?thesis using assms \<open>0 < w\<close> by (simp add: py_int_def)
qed

lemma ulp_exp_ge: "- 1074 \<le> ulp_exp x"
  by (simp add: ulp_exp_def)

lemma double_repr:
  assumes "fl y = y" "y \<noteq> 0"
  shows "y = of_int (rne (y / 2 powi ulp_exp y)) * 2 powi ulp_exp y"
  using assms by (simp add: fl_def)

lemma sub_exact:
  assumes "fl y = y" "0 \<le> lo" "of_int lo \<le> y" "y \<le> 2 ^ 51"
  shows "fl (y - of_int lo) = y - of_int lo"
proof (cases "y = 0")
  case True
  then have "lo = 0" using assms(2,3) by simp
  then show ?thesis using True by simp
next
  case False
  define u where "u = ulp_exp y"
  define k where "k = rne (y / 2 powi u)"
  have y: "y = of_int k * 2 powi u"
    using double_repr [OF assms(1) False] by (simp add: u_def k_def)
  have ypos: "0 < y" using assms(2,3) False by linarith
  have "\<bar>y\<bar> < 2 powi 52" using assms(4) ypos by simp
  then have "2 powi \<lfloor>log 2 \<bar>y\<bar>\<rfloor> < (2::real) powi 52"
    using binade_bounds [OF False] by linarith
  then have "\<lfloor>log 2 \<bar>y\<bar>\<rfloor> < 52" by (rule powi_less_cancel)
  then have un: "u < 0" by (simp add: u_def ulp_exp_def)
  define n where "n = nat (- u)"
  have "(2::real) powi u * 2 ^ n = 2 powi u * 2 powi (- u)"
    using un by (simp add: n_def power_int_def)
  also have "\<dots> = 2 powi (u + - u)" by (rule powi_split [symmetric])
  finally have one: "(2::real) powi u * 2 ^ n = 1" by simp
  have "real_of_int (lo * 2 ^ n) * 2 powi u = real_of_int lo * (2 powi u * 2 ^ n)"
    by (simp add: mult.assoc mult.commute)
  then have lo: "real_of_int lo = of_int (lo * 2 ^ n) * 2 powi u"
    by (simp only: one mult_1_right)
  have d: "y - of_int lo = of_int (k - lo * 2 ^ n) * 2 powi u"
  proof -
    have "y - of_int lo = of_int k * 2 powi u - of_int (lo * 2 ^ n) * 2 powi u"
      using y lo by simp
    also have "\<dots> = of_int (k - lo * 2 ^ n) * 2 powi u"
      by (simp add: left_diff_distrib)
    finally show ?thesis .
  qed
  have "\<bar>y - of_int lo\<bar> \<le> \<bar>y\<bar>" using assms(2,3) by simp
  also have "\<bar>y\<bar> < 2 powi (u + 53)"
    using ulp_exp_bounds(1) [OF False] by (simp add: u_def)
  finally have "\<bar>real_of_int (k - lo * 2 ^ n) * 2 powi u\<bar> < 2 ^ 53 * 2 powi u"
    using d by (simp add: powi_split mult.commute)
  then have "\<bar>real_of_int (k - lo * 2 ^ n)\<bar> * 2 powi u < 2 ^ 53 * 2 powi u"
    by (simp add: abs_mult)
  then have "\<bar>real_of_int (k - lo * 2 ^ n)\<bar> < 2 ^ 53" by simp
  then have "real_of_int \<bar>k - lo * 2 ^ n\<bar> < real_of_int (2 ^ 53)" by simp
  then have kb: "\<bar>k - lo * 2 ^ n\<bar> < 2 ^ 53" by (simp only: of_int_less_iff)
  show ?thesis
    using d kb ulp_exp_ge [of y] unfolding u_def [symmetric] by (rule fl_fixes)
qed

lemma fl_between:
  assumes "of_int a \<le> x" "x \<le> of_int b" "\<bar>a\<bar> < 2 ^ 53" "\<bar>b\<bar> < 2 ^ 53"
  shows "of_int a \<le> fl x \<and> fl x \<le> of_int b"
  using fl_mono [OF assms(1)] fl_mono [OF assms(2)] fl_of_int [OF assms(3)] fl_of_int [OF assms(4)]
  by simp


text \<open>Bounds on the float operations.\<close>

lemma fin_leE:
  assumes "fin_le x n"
  obtains a where "x = Fin a" "\<bar>a\<bar> \<le> of_int n"
  using assms by (cases x) (auto simp: fin_le_def)

lemma fin_le_Fin [simp]: "fin_le (Fin a) n \<longleftrightarrow> \<bar>a\<bar> \<le> of_int n"
  by (simp add: fin_le_def)

lemma fin_le_mono: "fin_le x a \<Longrightarrow> a \<le> b \<Longrightarrow> fin_le x b"
  by (cases x) (auto simp: fin_le_def)

lemma round_f_le:
  assumes "\<bar>r\<bar> \<le> of_int n" "\<bar>n\<bar> < 2 ^ 53"
  shows "fin_le (round_f r) n"
  using round_f_small [OF assms] fl_abs_le [OF assms] by simp

lemma of_py_int_val:
  assumes "\<bar>n\<bar> < 2 ^ 53"
  shows "of_py_int n = Fin (of_int n)"
proof -
  have "\<bar>real_of_int n\<bar> \<le> of_int \<bar>n\<bar>" by simp
  moreover have "\<bar>\<bar>n\<bar>\<bar> < 2 ^ 53" using assms by simp
  ultimately have "round_f (of_int n) = Fin (fl (of_int n))" by (rule round_f_small)
  then show ?thesis by (simp add: of_py_int_def fl_of_int [OF assms])
qed

lemma fadd_fin:
  assumes "fin_le x a" "fin_le y b" "a + b < 2 ^ 53"
  shows "fin_le (fadd x y) (a + b)"
proof -
  obtain u where u: "x = Fin u" "\<bar>u\<bar> \<le> of_int a" using assms(1) by (rule fin_leE)
  obtain v where v: "y = Fin v" "\<bar>v\<bar> \<le> of_int b" using assms(2) by (rule fin_leE)
  have "0 \<le> real_of_int (a + b)" using u(2) v(2) by simp
  then have "0 \<le> a + b" by (simp only: of_int_0_le_iff)
  then have n: "\<bar>a + b\<bar> < 2 ^ 53" using assms(3) by simp
  have "\<bar>u + v\<bar> \<le> of_int (a + b)" using u(2) v(2) by simp
  then show ?thesis using n by (simp add: u(1) v(1) round_f_le)
qed

lemma fmul_fin:
  assumes "fin_le x a" "fin_le y b" "a * b < 2 ^ 53"
  shows "fin_le (fmul x y) (a * b)"
proof -
  obtain u where u: "x = Fin u" "\<bar>u\<bar> \<le> of_int a" using assms(1) by (rule fin_leE)
  obtain v where v: "y = Fin v" "\<bar>v\<bar> \<le> of_int b" using assms(2) by (rule fin_leE)
  have "\<bar>u\<bar> * \<bar>v\<bar> \<le> of_int a * of_int b"
    using u(2) v(2) by (intro mult_mono) auto
  then have le: "\<bar>u * v\<bar> \<le> of_int (a * b)" by (simp add: abs_mult)
  then have "0 \<le> real_of_int (a * b)" by linarith
  then have "0 \<le> a * b" by (simp only: of_int_0_le_iff)
  then have n: "\<bar>a * b\<bar> < 2 ^ 53" using assms(3) by simp
  show ?thesis using le n by (simp add: u(1) v(1) round_f_le)
qed

lemma fneg_fin: "fin_le x a \<Longrightarrow> fin_le (fneg x) a"
  by (cases x) (auto simp: fin_le_def)

lemma fsub_fin:
  assumes "fin_le x a" "fin_le y b" "a + b < 2 ^ 53"
  shows "fin_le (fsub x y) (a + b)"
  unfolding fsub_def using assms by (intro fadd_fin fneg_fin)

lemma py_int_abs: "\<bar>real_of_int (py_int r)\<bar> \<le> \<bar>r\<bar>"
proof (cases "0 \<le> r")
  case True
  then show ?thesis by (simp add: py_int_def)
next
  case False
  then have "\<lceil>r\<rceil> \<le> 0" by (simp add: ceiling_le_iff)
  then have "real_of_int \<lceil>r\<rceil> \<le> 0" by simp
  then show ?thesis using False by (simp add: py_int_def)
qed

lemma float_int_fin:
  assumes "fin_le x a"
  shows "\<exists>n. float_int x = Inr n \<and> \<bar>n\<bar> \<le> a"
proof -
  obtain u where u: "x = Fin u" "\<bar>u\<bar> \<le> of_int a" using assms by (rule fin_leE)
  have "real_of_int \<bar>py_int u\<bar> \<le> of_int a" using py_int_abs [of u] u(2) by simp
  then have "\<bar>py_int u\<bar> \<le> a" by (simp only: of_int_le_iff)
  then show ?thesis by (simp add: u(1))
qed

lemma float_cos_fin: "\<exists>c. float_cos (Fin a) = Inr c \<and> fin_le c 1"
proof -
  have "\<bar>cos a\<bar> \<le> of_int 1" by simp
  then have "fin_le (round_f (cos a)) 1" by (rule round_f_le) simp
  then show ?thesis by simp
qed

lemma float_sin_fin: "\<exists>c. float_sin (Fin a) = Inr c \<and> fin_le c 1"
proof -
  have "\<bar>sin a\<bar> \<le> of_int 1" by simp
  then have "fin_le (round_f (sin a)) 1" by (rule round_f_le) simp
  then show ?thesis by simp
qed

lemma copysign_fin: "fin_le x a \<Longrightarrow> fin_le (copysign_f x s) a"
  by (cases x) (auto simp: fin_le_def)

lemma clamp_fin:
  assumes "0 \<le> m" "m \<le> of_int a"
  shows "fin_le (clamp_f v (fneg (Fin m)) (Fin m)) a"
  using assms by (cases v) (auto simp: clamp_f_def py_max_def py_min_def fgt_def)

lemma and_then_Inr [simp]: "and_then (Inr v) f = f v"
  by (simp add: and_then_def)

lemma and_then_Inl [simp]: "and_then (Inl e) f = Inl e"
  by (simp add: and_then_def)

lemma rect_assign_ok: "c_int_ok v \<Longrightarrow> rect_assign setter v r = Inr (setter v r)"
  by (simp add: rect_assign_def)

lemma c_int_ok_small: "\<bar>v\<bar> \<le> 2000000000 \<Longrightarrow> c_int_ok v"
  by (simp add: c_int_ok_def abs_le_iff)

text \<open>The paddles on floats.\<close>

lemma dt_okE:
  assumes "dt_ok t"
  obtains d where "t = Fin d" "0 \<le> d" "d \<le> 1000000"
  using assms by (cases t) (auto simp: dt_ok_def draw_in_def)

lemma speed_step:
  assumes "dt_ok t" "0 \<le> s" "s \<le> 1000"
  shows "\<exists>m. fmul (of_py_int s) t = Fin m \<and> 0 \<le> m \<and> m \<le> of_int (s * 1000000)"
proof -
  obtain d where d: "t = Fin d" "0 \<le> d" "d \<le> 1000000" using assms(1) by (rule dt_okE)
  have sv: "of_py_int s = Fin (of_int s)" using assms(2,3) by (intro of_py_int_val) simp
  have le: "of_int s * d \<le> of_int s * 1000000"
    using d(3) assms(2) by (intro mult_left_mono) auto
  have nn: "0 \<le> of_int s * d" using d(2) assms(2) by simp
  have b: "\<bar>s * 1000000\<bar> < 2 ^ 53" using assms(2,3) by simp
  have a: "\<bar>of_int s * d\<bar> \<le> of_int (s * 1000000)" using le nn by simp
  have "round_f (of_int s * d) = Fin (fl (of_int s * d))" using a b by (rule round_f_small)
  moreover have "of_int 0 \<le> fl (of_int s * d) \<and> fl (of_int s * d) \<le> of_int (s * 1000000)"
    using nn le b by (intro fl_between) simp_all
  ultimately show ?thesis by (simp add: sv d(1))
qed

lemma centery_paddle:
  assumes "paddle_ok p"
  shows "50 \<le> get_centery (rect_pm p)" "get_centery (rect_pm p) \<le> 550"
  using assms by (simp_all add: paddle_ok_def rect_defs config_defs)

lemma update_player_ok:
  assumes "paddle_ok p" "dt_ok t"
  shows "\<exists>p'. update_player_m t up down p = Inr p' \<and> paddle_ok p'"
proof -
  let ?dz = "if up then fsub (Fin 0) (fmul (of_py_int (speed_pm p)) t) else Fin 0"
  let ?dy = "if down then fadd ?dz (fmul (of_py_int (speed_pm p)) t) else ?dz"
  have s: "0 \<le> speed_pm p" "speed_pm p \<le> 1000"
    using assms(1) by (simp_all add: paddle_ok_def config_defs)
  obtain m where m: "fmul (of_py_int (speed_pm p)) t = Fin m" "0 \<le> m"
      "m \<le> of_int (speed_pm p * 1000000)"
    using speed_step [OF assms(2) s] by blast
  have "real_of_int (speed_pm p * 1000000) \<le> real_of_int 1000000000"
    using s(2) by (simp only: of_int_le_iff)
  then have step: "fin_le (Fin m) 1000000000" using m(2,3) by simp
  have "fin_le (fsub (Fin 0) (Fin m)) (0 + 1000000000)"
    using step by (intro fsub_fin) simp_all
  then have dy0: "fin_le ?dz 1000000000" by (simp add: m(1))
  have "fin_le (fadd ?dz (Fin m)) (1000000000 + 1000000000)"
    using dy0 step by (intro fadd_fin) simp_all
  then have dy: "fin_le ?dy 2000000000"
    using dy0 by (auto simp: m(1) intro: fin_le_mono)
  have cv: "of_py_int (get_centery (rect_pm p)) = Fin (of_int (get_centery (rect_pm p)))"
    using centery_paddle [OF assms(1)] by (intro of_py_int_val) simp
  have "fin_le (of_py_int (get_centery (rect_pm p))) 550"
    using centery_paddle [OF assms(1)] by (simp add: cv)
  then have "fin_le (fadd (of_py_int (get_centery (rect_pm p))) ?dy) (550 + 2000000000)"
    using dy by (intro fadd_fin) simp_all
  then obtain n where n: "float_int (fadd (of_py_int (get_centery (rect_pm p))) ?dy) = Inr n"
    using float_int_fin by blast
  let ?v = "max (PADDLE_HEIGHT div 2) (min (SCREEN_HEIGHT - PADDLE_HEIGHT div 2) n)"
  have vb: "50 \<le> ?v" "?v \<le> 550" by (simp_all add: config_defs)
  then have "c_int_ok ?v" by (simp add: c_int_ok_def)
  then have asg: "rect_assign set_centery ?v (rect_pm p) = Inr (set_centery ?v (rect_pm p))"
    by (rule rect_assign_ok)
  have val: "update_player_m t up down p = Inr (p\<lparr>rect_pm := set_centery ?v (rect_pm p)\<rparr>)"
    unfolding update_player_m_def Let_def by (simp only: n and_then_Inr asg)
  have "paddle_ok (p\<lparr>rect_pm := set_centery ?v (rect_pm p)\<rparr>)"
    using assms(1) vb by (simp add: paddle_ok_def rect_defs config_defs)
  then show ?thesis using val by simp
qed

lemma ai_track_ok:
  assumes "paddle_ok p" "dt_ok t"
  shows "\<exists>p'. ai_track_m t p = Inr p' \<and> paddle_ok p'"
proof -
  let ?desired = "fmul (fsub (target_y_m p) (of_py_int (get_centery (rect_pm p))))
                    (round_f (22 / 100))"
  let ?max_step = "fmul (of_py_int (speed_pm p)) t"
  let ?step = "clamp_f ?desired (fneg ?max_step) ?max_step"
  have s: "0 \<le> speed_pm p" "speed_pm p \<le> 1000"
    using assms(1) by (simp_all add: paddle_ok_def config_defs)
  obtain m where m: "?max_step = Fin m" "0 \<le> m" "m \<le> of_int (speed_pm p * 1000000)"
    using speed_step [OF assms(2) s] by blast
  have "real_of_int (speed_pm p * 1000000) \<le> real_of_int 1000000000"
    using s(2) by (simp only: of_int_le_iff)
  then have mb: "m \<le> of_int 1000000000" using m(3) by simp
  have step: "fin_le ?step 1000000000"
    unfolding m(1) using m(2) mb by (rule clamp_fin)
  have cv: "of_py_int (get_centery (rect_pm p)) = Fin (of_int (get_centery (rect_pm p)))"
    using centery_paddle [OF assms(1)] by (intro of_py_int_val) simp
  have "fin_le (of_py_int (get_centery (rect_pm p))) 550"
    using centery_paddle [OF assms(1)] by (simp add: cv)
  then have "fin_le (fadd (of_py_int (get_centery (rect_pm p))) ?step) (550 + 1000000000)"
    using step by (intro fadd_fin) simp_all
  then obtain n where n: "float_int (fadd (of_py_int (get_centery (rect_pm p))) ?step) = Inr n"
      "\<bar>n\<bar> \<le> 550 + 1000000000"
    using float_int_fin by blast
  have h: "rect_h (rect_pm p) = 100" using assms(1) by (simp add: paddle_ok_def config_defs)
  let ?r1 = "set_centery n (rect_pm p)"
  let ?r2 = "set_top (max 0 (get_top ?r1)) ?r1"
  let ?r3 = "set_bottom (min SCREEN_HEIGHT (get_bottom ?r2)) ?r2"
  have a1: "rect_assign set_centery n (rect_pm p) = Inr ?r1"
    using n(2) by (intro rect_assign_ok c_int_ok_small) simp
  have t1: "\<bar>get_top ?r1\<bar> \<le> 1000001000"
    using n(2) h by (simp add: rect_defs)
  have a2: "rect_assign set_top (max 0 (get_top ?r1)) ?r1 = Inr ?r2"
    using t1 by (intro rect_assign_ok c_int_ok_small) simp
  have b2: "0 \<le> get_bottom ?r2" "get_bottom ?r2 \<le> 1000002000"
    using t1 h by (simp_all add: rect_defs)
  have a3: "rect_assign set_bottom (min SCREEN_HEIGHT (get_bottom ?r2)) ?r2 = Inr ?r3"
    using b2 by (intro rect_assign_ok c_int_ok_small) (simp add: config_defs)
  have val: "ai_track_m t p = Inr (p\<lparr>rect_pm := ?r3\<rparr>)"
    unfolding ai_track_m_def Let_def by (simp only: n(1) and_then_Inr a1 a2 a3)
  have "paddle_ok (p\<lparr>rect_pm := ?r3\<rparr>)"
    using assms(1) by (simp add: paddle_ok_def rect_defs config_defs)
  then show ?thesis using val by simp
qed

lemma float_div_total: "y \<noteq> Fin 0 \<Longrightarrow> \<exists>v. float_div x y = Inr v"
  by (cases x; cases y) auto

lemma float_mod_total: "y \<noteq> Fin 0 \<Longrightarrow> \<exists>v. float_mod x y = Inr v"
  by (cases x; cases y) (auto simp: Let_def)

lemma round_f_int:
  assumes "\<bar>n\<bar> < 2 ^ 53"
  shows "round_f (of_int n) = Fin (of_int n)"
  using of_py_int_val [OF assms] by (simp add: of_py_int_def)

lemma reflect_off_bounds_call_total:
  "\<exists>v. reflect_off_bounds_f y (of_py_int (BALL_SIZE div 2))
          (of_py_int (SCREEN_HEIGHT - BALL_SIZE div 2)) = Inr v"
proof -
  have lo: "of_py_int (BALL_SIZE div 2) = Fin 7"
    using of_py_int_val [of 7] by (simp add: config_defs)
  have hi: "of_py_int (SCREEN_HEIGHT - BALL_SIZE div 2) = Fin 593"
    using of_py_int_val [of 593] by (simp add: config_defs)
  have span: "fsub (Fin 593) (Fin 7) = Fin 586"
    using round_f_int [of 586] by (simp add: fsub_def)
  have two: "fmul (Fin 2) (Fin 586) = Fin 1172"
    using round_f_int [of 1172] by simp
  obtain t where t: "float_mod (fsub y (Fin 7)) (Fin 1172) = Inr t"
    using float_mod_total [of "Fin 1172"] by auto
  show ?thesis
    unfolding reflect_off_bounds_f_def Let_def lo hi span two t
    by (simp add: fle_def feq_def)
qed

lemma ai_retarget_m_total:
  "\<exists>p'. ai_retarget_m r bl p = Inr p' \<and> rect_pm p' = rect_pm p \<and> speed_pm p' = speed_pm p"
proof (cases "fgt (velocity_x_m bl) (Fin 0)")
  case True
  then have nz: "velocity_x_m bl \<noteq> Fin 0" by (auto simp: fgt_def)
  let ?p1 = "p\<lparr>reaction_timer_m := Fin 0, next_reaction_at_m := reaction_delay_m r\<rparr>"
  obtain ttr where ttr:
    "(if \<not> feq (velocity_x_m bl) (Fin 0)
      then float_div (of_py_int (get_left (rect_pm ?p1) - get_right (rect_bm bl)))
             (velocity_x_m bl)
      else Inr (Fin 0)) = Inr ttr"
    using float_div_total [OF nz] by (cases "feq (velocity_x_m bl) (Fin 0)") auto
  obtain py where py:
    "reflect_off_bounds_f
       (fadd (of_py_int (get_centery (rect_bm bl)))
          (fmul (fmul (velocity_y_m bl) ttr) (round_f (55 / 100))))
       (of_py_int (BALL_SIZE div 2))
       (of_py_int (SCREEN_HEIGHT - BALL_SIZE div 2)) = Inr py"
    using reflect_off_bounds_call_total by blast
  have "of_py_int BALL_SPEED_MAX = Fin 680"
    using of_py_int_val [of 680] by (simp add: config_defs)
  then have "of_py_int BALL_SPEED_MAX \<noteq> Fin 0" by simp
  then obtain ratio where ratio:
    "float_div (fabs (velocity_x_m bl)) (of_py_int BALL_SPEED_MAX) = Inr ratio"
    using float_div_total by blast
  show ?thesis
    unfolding ai_retarget_m_def Let_def using True
    by (simp only: ttr py ratio and_then_Inr if_True) simp
next
  case False
  have "of_py_int 2 = Fin 2" using of_py_int_val [of 2] by simp
  then have "of_py_int 2 \<noteq> Fin 0" by simp
  then obtain c where c: "float_div (of_py_int SCREEN_HEIGHT) (of_py_int 2) = Inr c"
    using float_div_total by blast
  show ?thesis
    unfolding ai_retarget_m_def Let_def using False
    by (simp only: c and_then_Inr if_False) simp
qed

lemma update_ai_ok:
  assumes "paddle_ok p" "dt_ok t"
  shows "\<exists>p'. update_ai_m t r bl p = Inr p' \<and> paddle_ok p'"
proof -
  let ?p0 = "p\<lparr>reaction_timer_m := fadd (reaction_timer_m p) (fmul t (Fin 1000))\<rparr>"
  obtain p2 where p2:
    "(if fge (reaction_timer_m ?p0) (next_reaction_at_m ?p0) then ai_retarget_m r bl ?p0
      else Inr ?p0) = Inr p2"
    "rect_pm p2 = rect_pm p" "speed_pm p2 = speed_pm p"
    using ai_retarget_m_total [of r bl ?p0]
    by (cases "fge (reaction_timer_m ?p0) (next_reaction_at_m ?p0)") auto
  have "paddle_ok p2" using assms(1) p2(2,3) by (simp add: paddle_ok_def)
  then obtain p' where "ai_track_m t p2 = Inr p'" "paddle_ok p'"
    using ai_track_ok [OF _ assms(2)] by blast
  then show ?thesis
    unfolding update_ai_m_def Let_def by (simp only: p2(1) and_then_Inr) simp
qed

lemma draw_inE:
  assumes "draw_in x lo hi"
  obtains a where "x = Fin a" "lo \<le> a" "a \<le> hi"
  using assms by (cases x) (auto simp: draw_in_def)

lemma speed_val:
  assumes "ball_moving b"
  shows "of_py_int (speed_bm b) = Fin (of_int (speed_bm b))" "fin_le (of_py_int (speed_bm b)) 680"
proof -
  have s: "360 \<le> speed_bm b" "speed_bm b \<le> 680"
    using assms by (simp_all add: ball_moving_def config_defs)
  then show v: "of_py_int (speed_bm b) = Fin (of_int (speed_bm b))"
    by (intro of_py_int_val) simp
  have "real_of_int \<bar>speed_bm b\<bar> \<le> real_of_int 680" using s by (simp only: of_int_le_iff)
  then show "fin_le (of_py_int (speed_bm b)) 680" by (simp add: v)
qed

lemma serve_ok:
  assumes "ball_ok b" "rand_ok_m r"
  shows "\<exists>b'. serve_if_ready_m now r b = Inr b' \<and> ball_ok b'"
proof (cases "feq (length_squared_m b) (Fin 0) \<and> now \<ge> serve_time_m b")
  case False
  then have "serve_if_ready_m now r b = Inr b"
    unfolding serve_if_ready_m_def by (simp only: if_False)
  then show ?thesis using assms(1) by simp
next
  case True
  have mv: "ball_moving b" using assms(1) by (simp add: ball_ok_def)
  obtain a where a: "serve_angle_m r = Fin a"
    using assms(2) by (auto simp: rand_ok_m_def elim: draw_inE)
  obtain c where c: "float_cos (serve_angle_m r) = Inr c" "fin_le c 1"
    unfolding a using float_cos_fin by blast
  obtain s where s: "float_sin (serve_angle_m r) = Inr s" "fin_le s 1"
    unfolding a using float_sin_fin by blast
  let ?vx = "copysign_f (fmul (of_py_int (speed_bm b)) c) (serve_dir_m b)"
  let ?vy = "fmul (of_py_int (speed_bm b)) s"
  have "fin_le (fmul (of_py_int (speed_bm b)) c) (680 * 1)"
    using speed_val(2) [OF mv] c(2) by (intro fmul_fin) simp_all
  then have vx: "fin_le ?vx 680" by (intro copysign_fin) simp
  have "fin_le ?vy (680 * 1)"
    using speed_val(2) [OF mv] s(2) by (intro fmul_fin) simp_all
  then have vy: "fin_le ?vy 688" by (rule fin_le_mono) simp
  have val: "serve_if_ready_m now r b = Inr (b\<lparr>velocity_x_m := ?vx, velocity_y_m := ?vy\<rparr>)"
    unfolding serve_if_ready_m_def using True
    by (simp only: c(1) s(1) and_then_Inr simp_thms if_True)
  have "ball_ok (b\<lparr>velocity_x_m := ?vx, velocity_y_m := ?vy\<rparr>)"
    using assms(1) vx vy by (simp add: ball_ok_def ball_moving_def config_defs)
  then show ?thesis using val by simp
qed

lemma travel:
  assumes "fin_le v 688" "dt_ok t"
  shows "\<exists>n. float_int (fmul v t) = Inr n \<and> \<bar>n\<bar> \<le> 688000000"
proof -
  obtain d where d: "t = Fin d" "0 \<le> d" "d \<le> 1000000" using assms(2) by (rule dt_okE)
  have "fin_le t 1000000" using d by simp
  then have "fin_le (fmul v t) (688 * 1000000)"
    using assms(1) by (intro fmul_fin) simp_all
  then show ?thesis using float_int_fin [of "fmul v t" "688 * 1000000"] by simp
qed

lemma integrate_ok:
  assumes "ball_ok b" "dt_ok t"
  shows "\<exists>b'. integrate_m t b = Inr b' \<and> ball_moving b'
           \<and> \<bar>rect_x (rect_bm b')\<bar> \<le> 1000000000 \<and> \<bar>rect_y (rect_bm b')\<bar> \<le> 1000000000"
proof -
  have mv: "ball_moving b" using assms(1) by (simp add: ball_ok_def)
  have pos: "- 14 \<le> rect_x (rect_bm b)" "rect_x (rect_bm b) \<le> 800"
    "0 \<le> rect_y (rect_bm b)" "rect_y (rect_bm b) \<le> 586"
    using assms(1) by (simp_all add: ball_ok_def config_defs)
  have "fin_le (velocity_x_m b) 688"
    using mv by (auto simp: ball_moving_def config_defs intro: fin_le_mono)
  then obtain nx where nx: "float_int (fmul (velocity_x_m b) t) = Inr nx" "\<bar>nx\<bar> \<le> 688000000"
    using travel [OF _ assms(2)] by blast
  have "fin_le (velocity_y_m b) 688"
    using mv by (simp add: ball_moving_def config_defs)
  then obtain ny where ny: "float_int (fmul (velocity_y_m b) t) = Inr ny" "\<bar>ny\<bar> \<le> 688000000"
    using travel [OF _ assms(2)] by blast
  let ?r1 = "set_x (rect_x (rect_bm b) + nx) (rect_bm b)"
  let ?r2 = "set_y (rect_y ?r1 + ny) ?r1"
  have a1: "rect_assign set_x (rect_x (rect_bm b) + nx) (rect_bm b) = Inr ?r1"
    using nx(2) pos by (intro rect_assign_ok c_int_ok_small) simp
  have a2: "rect_assign set_y (rect_y ?r1 + ny) ?r1 = Inr ?r2"
    using ny(2) pos by (intro rect_assign_ok c_int_ok_small) (simp add: set_x_def)
  have val: "integrate_m t b = Inr (b\<lparr>rect_bm := ?r2\<rparr>)"
    unfolding integrate_m_def by (simp only: nx(1) ny(1) a1 a2 and_then_Inr)
  have "ball_moving (b\<lparr>rect_bm := ?r2\<rparr>)"
    using mv by (simp add: ball_moving_def set_x_def set_y_def)
  moreover have "\<bar>rect_x (rect_bm (b\<lparr>rect_bm := ?r2\<rparr>))\<bar> \<le> 1000000000"
    using nx(2) pos by (simp add: set_x_def set_y_def)
  moreover have "\<bar>rect_y (rect_bm (b\<lparr>rect_bm := ?r2\<rparr>))\<bar> \<le> 1000000000"
    using ny(2) pos by (simp add: set_x_def set_y_def)
  ultimately show ?thesis using val by simp
qed

lemma flip_ok:
  assumes "fin_le v 688"
  shows "fin_le (fmul v (of_py_int (- 1))) 688"
proof -
  have "of_py_int (- 1) = Fin (of_int (- 1))" by (intro of_py_int_val) simp
  then have "fin_le (of_py_int (- 1)) 1" by simp
  then have "fin_le (fmul v (of_py_int (- 1))) (688 * 1)"
    using assms by (intro fmul_fin) simp_all
  then show ?thesis by simp
qed

lemma collide_walls_ok:
  assumes "ball_moving b" "\<bar>rect_x (rect_bm b)\<bar> \<le> 1000000000"
    "\<bar>rect_y (rect_bm b)\<bar> \<le> 1000000000"
  shows "\<exists>b'. collide_walls_m b = Inr b' \<and> ball_moving b'
           \<and> rect_x (rect_bm b') = rect_x (rect_bm b)
           \<and> 0 \<le> rect_y (rect_bm b') \<and> rect_y (rect_bm b') \<le> 586"
proof -
  have vy: "fin_le (fmul (velocity_y_m b) (of_py_int (- 1))) 688"
    using assms(1) by (intro flip_ok) (simp add: ball_moving_def config_defs)
  have h: "rect_h (rect_bm b) = 14" using assms(1) by (simp add: ball_moving_def config_defs)
  have a1: "rect_assign set_top 0 (rect_bm b) = Inr (set_top 0 (rect_bm b))"
    by (intro rect_assign_ok) (simp add: c_int_ok_def)
  have a2: "rect_assign set_bottom SCREEN_HEIGHT (rect_bm b)
              = Inr (set_bottom SCREEN_HEIGHT (rect_bm b))"
    by (intro rect_assign_ok) (simp add: c_int_ok_def config_defs)
  consider "get_top (rect_bm b) \<le> 0"
    | "\<not> get_top (rect_bm b) \<le> 0" "get_bottom (rect_bm b) \<ge> SCREEN_HEIGHT"
    | "\<not> get_top (rect_bm b) \<le> 0" "\<not> get_bottom (rect_bm b) \<ge> SCREEN_HEIGHT"
    by blast
  then show ?thesis
  proof cases
    case 1
    then have "collide_walls_m b
        = Inr (b\<lparr>rect_bm := set_top 0 (rect_bm b),
                 velocity_y_m := fmul (velocity_y_m b) (of_py_int (- 1))\<rparr>)"
      unfolding collide_walls_m_def by (simp only: a1 and_then_Inr if_True)
    then show ?thesis
      using assms(1) vy by (simp add: ball_moving_def rect_defs config_defs)
  next
    case 2
    then have "collide_walls_m b
        = Inr (b\<lparr>rect_bm := set_bottom SCREEN_HEIGHT (rect_bm b),
                 velocity_y_m := fmul (velocity_y_m b) (of_py_int (- 1))\<rparr>)"
      unfolding collide_walls_m_def by (simp only: a2 and_then_Inr if_True if_False)
    then show ?thesis
      using assms(1) vy h by (simp add: ball_moving_def rect_defs config_defs)
  next
    case 3
    then have "collide_walls_m b = Inr b"
      unfolding collide_walls_m_def by (simp only: if_False)
    then show ?thesis
      using assms(1) 3 h by (simp add: rect_defs config_defs)
  qed
qed

text \<open>The ball and the match loop on floats.\<close>

lemma half_height: "float_div (of_py_int PADDLE_HEIGHT) (of_py_int 2) = Inr (Fin 50)"
proof -
  have a: "of_py_int PADDLE_HEIGHT = Fin 100"
    using of_py_int_val [of 100] by (simp add: config_defs)
  have b: "of_py_int 2 = Fin 2" using of_py_int_val [of 2] by simp
  have "round_f (of_int 50) = Fin (of_int 50)" by (intro round_f_int) simp
  then show ?thesis by (simp add: a b)
qed

lemma bounce_ok:
  assumes "ball_moving b" "paddle_ok p" "draw_in (jitter_m r) (- 8) 8"
  shows "\<exists>b'. bounce_off_paddle_m r p is_left b = Inr b' \<and> ball_moving b'
           \<and> rect_y (rect_bm b') = rect_y (rect_bm b)
           \<and> \<bar>rect_x (rect_bm b')\<bar> \<le> 1000000000"
proof -
  obtain o0 where o0:
    "float_div (of_py_int (get_centery (rect_bm b) - get_centery (rect_pm p))) (Fin 50) = Inr o0"
    using float_div_total [of "Fin 50"] by auto
  let ?offset = "clamp_f o0 (Fin (- 1)) (Fin 1)"
  let ?angle = "fmul ?offset (round_f (9 / 10))"
  let ?speed = "min BALL_SPEED_MAX (speed_bm b + BALL_SPEED_INCREMENT)"
  let ?direction = "if \<not> is_left then 1 else - 1 :: int"
  have "fin_le (clamp_f o0 (fneg (Fin 1)) (Fin 1)) 1" by (rule clamp_fin) simp_all
  then have off: "fin_le ?offset 1" by simp
  have "\<bar>9 / 10 :: real\<bar> \<le> of_int 1" by simp
  then have "fin_le (round_f (9 / 10)) 1" by (rule round_f_le) simp
  then have "fin_le ?angle (1 * 1)" using off by (intro fmul_fin) simp_all
  then obtain a where a: "?angle = Fin a" by (rule fin_leE)
  obtain c where c: "float_cos ?angle = Inr c" "fin_le c 1"
    unfolding a using float_cos_fin by blast
  obtain s where s: "float_sin ?angle = Inr s" "fin_le s 1"
    unfolding a using float_sin_fin by blast
  have sp: "360 \<le> ?speed" "?speed \<le> 680"
    using assms(1) by (simp_all add: ball_moving_def config_defs)
  have px: "0 \<le> rect_x (rect_pm p)" "rect_x (rect_pm p) \<le> 800" "rect_w (rect_pm p) = 12"
    using assms(2) by (simp_all add: paddle_ok_def config_defs)
  have bw: "rect_w (rect_bm b) = 14"
    using assms(1) by (simp add: ball_moving_def config_defs)
  let ?rc = "if is_left then set_left (get_right (rect_pm p)) (rect_bm b)
             else set_right (get_left (rect_pm p)) (rect_bm b)"
  have asg: "(if is_left then rect_assign set_left (get_right (rect_pm p)) (rect_bm b)
              else rect_assign set_right (get_left (rect_pm p)) (rect_bm b)) = Inr ?rc"
    using px by (simp add: rect_assign_def c_int_ok_def rect_defs)
  have dv: "of_py_int (?direction * ?speed) = Fin (of_int (?direction * ?speed))"
    using sp by (intro of_py_int_val) simp
  have "real_of_int \<bar>?direction * ?speed\<bar> \<le> real_of_int 680"
    using sp by (simp only: of_int_le_iff) simp
  then have "fin_le (of_py_int (?direction * ?speed)) 680" by (simp add: dv)
  then have "fin_le (fmul (of_py_int (?direction * ?speed)) c) (680 * 1)"
    using c(2) by (intro fmul_fin) simp_all
  then have vx: "fin_le (fmul (of_py_int (?direction * ?speed)) c) 680" by simp
  have sv: "of_py_int ?speed = Fin (of_int ?speed)"
    using sp by (intro of_py_int_val) simp
  have "real_of_int \<bar>?speed\<bar> \<le> real_of_int 680"
    using sp by (simp only: of_int_le_iff)
  then have "fin_le (of_py_int ?speed) 680" by (simp add: sv)
  then have "fin_le (fmul (of_py_int ?speed) s) (680 * 1)"
    using s(2) by (intro fmul_fin) simp_all
  moreover have "fin_le (jitter_m r) 8"
    using assms(3) by (auto elim!: draw_inE)
  ultimately have "fin_le (fadd (fmul (of_py_int ?speed) s) (jitter_m r)) (680 * 1 + 8)"
    by (intro fadd_fin) simp_all
  then have vy: "fin_le (fadd (fmul (of_py_int ?speed) s) (jitter_m r)) 688" by simp
  let ?b' = "b\<lparr>speed_bm := ?speed, rect_bm := ?rc,
               velocity_x_m := fmul (of_py_int (?direction * ?speed)) c,
               velocity_y_m := fadd (fmul (of_py_int ?speed) s) (jitter_m r)\<rparr>"
  have val: "bounce_off_paddle_m r p is_left b = Inr ?b'"
    unfolding bounce_off_paddle_m_def Let_def
    by (simp only: half_height o0 c(1) s(1) asg and_then_Inr)
  have "ball_moving ?b'"
    using assms(1) vx vy sp by (simp add: ball_moving_def rect_defs config_defs)
  moreover have "rect_y (rect_bm ?b') = rect_y (rect_bm b)" by (simp add: rect_defs)
  moreover have "\<bar>rect_x (rect_bm ?b')\<bar> \<le> 1000000000"
    using px bw by (auto simp: rect_defs abs_le_iff)
  ultimately show ?thesis using val by simp
qed

lemma collide_paddles_ok:
  assumes "ball_moving b" "paddle_ok lp" "paddle_ok rp" "draw_in (jitter_m r) (- 8) 8"
    "\<bar>rect_x (rect_bm b)\<bar> \<le> 1000000000"
  shows "\<exists>b'. collide_paddles_m r lp rp b = Inr b' \<and> ball_moving b'
           \<and> rect_y (rect_bm b') = rect_y (rect_bm b)"
  using bounce_ok [OF assms(1,2,4), of True] bounce_ok [OF assms(1,3,4), of False] assms(1)
  by (auto simp: collide_paddles_m_def)

lemma update_ok:
  assumes "ball_ok b" "paddle_ok lp" "paddle_ok rp" "dt_ok t" "rand_ok_m r"
  shows "\<exists>b' s. update_m t now r lp rp b = Inr (b', s) \<and> ball_moving b'
           \<and> (s = 0 \<longrightarrow> ball_ok b')"
proof -
  obtain b1 where b1: "serve_if_ready_m now r b = Inr b1" "ball_ok b1"
    using serve_ok [OF assms(1,5)] by blast
  show ?thesis
  proof (cases "feq (length_squared_m b1) (Fin 0)")
    case True
    then have "update_m t now r lp rp b = Inr (b1, 0)"
      unfolding update_m_def by (simp only: b1(1) and_then_Inr if_True)
    then show ?thesis using b1(2) by (simp add: ball_ok_def)
  next
    case False
    obtain b2 where b2: "integrate_m t b1 = Inr b2" "ball_moving b2"
        "\<bar>rect_x (rect_bm b2)\<bar> \<le> 1000000000" "\<bar>rect_y (rect_bm b2)\<bar> \<le> 1000000000"
      using integrate_ok [OF b1(2) assms(4)] by blast
    obtain b3 where b3: "collide_walls_m b2 = Inr b3" "ball_moving b3"
        "rect_x (rect_bm b3) = rect_x (rect_bm b2)"
        "0 \<le> rect_y (rect_bm b3)" "rect_y (rect_bm b3) \<le> 586"
      using collide_walls_ok [OF b2(2,3,4)] by blast
    have j: "draw_in (jitter_m r) (- 8) 8" using assms(5) by (simp add: rand_ok_m_def)
    obtain b4 where b4: "collide_paddles_m r lp rp b3 = Inr b4" "ball_moving b4"
        "rect_y (rect_bm b4) = rect_y (rect_bm b3)"
      using collide_paddles_ok [OF b3(2) assms(2,3) j] b2(3) b3(3) by auto
    have val: "update_m t now r lp rp b = Inr (b4, out_of_bounds_m b4)"
      unfolding update_m_def using False
      by (simp only: b1(1) b2(1) b3(1) b4(1) and_then_Inr if_False)
    have w: "rect_w (rect_bm b4) = 14"
      using b4(2) by (simp add: ball_moving_def config_defs)
    have "out_of_bounds_m b4 = 0 \<longrightarrow> ball_ok b4"
      using b4(2,3) b3(4,5) w
      by (auto simp: out_of_bounds_m_def ball_ok_def rect_defs config_defs split: if_splits)
    then show ?thesis using val b4(2) by simp
  qed
qed

lemma reset_ok:
  assumes "ball_moving b"
  shows "\<exists>b'. reset_m d now b = Inr b' \<and> ball_ok b'"
proof -
  have a: "rect_assign_center (SCREEN_WIDTH div 2, SCREEN_HEIGHT div 2) (rect_bm b)
             = Inr (set_center (SCREEN_WIDTH div 2, SCREEN_HEIGHT div 2) (rect_bm b))"
    by (simp add: rect_assign_center_def c_int_ok_def config_defs)
  have "reset_m d now b
          = Inr (b\<lparr>rect_bm := set_center (SCREEN_WIDTH div 2, SCREEN_HEIGHT div 2) (rect_bm b),
                   speed_bm := BALL_SPEED, velocity_x_m := Fin 0, velocity_y_m := Fin 0,
                   serve_dir_m := d, serve_time_m := now + SERVE_DELAY\<rparr>)"
    unfolding reset_m_def by (simp only: a and_then_Inr)
  then show ?thesis
    using assms by (simp add: ball_ok_def ball_moving_def rect_defs config_defs)
qed

lemma apply_score_ok:
  assumes "paddle_ok (left_paddle_m m)" "paddle_ok (right_paddle_m m)" "ball_moving (ball_m m)"
    "s = 0 \<longrightarrow> ball_ok (ball_m m)"
  shows "\<exists>m'. apply_score_m s now m = Inr m' \<and> match_ok m'"
proof (cases "s = 0")
  case True
  then show ?thesis using assms by (simp add: apply_score_m_def match_ok_def)
next
  case False
  obtain b1 where b1: "reset_m 1 now (ball_m m) = Inr b1" "ball_ok b1"
    using reset_ok [OF assms(3)] by blast
  obtain b2 where b2: "reset_m (- 1) now (ball_m m) = Inr b2" "ball_ok b2"
    using reset_ok [OF assms(3)] by blast
  show ?thesis
    using False assms(1,2) b1 b2 by (simp add: apply_score_m_def match_ok_def)
qed

lemma win_banner_ok: "match_ok m \<Longrightarrow> match_ok (win_banner_m m)"
  by (simp add: win_banner_m_def match_ok_def ball_ok_def ball_moving_def config_defs)

lemma frame_ok:
  assumes "match_ok m" "input_ok i"
  shows "\<exists>m'. frame_m i m = Inr m' \<and> match_ok m'"
proof -
  let ?m0 = "if quit_event_m i then m\<lparr>running_m := False\<rparr> else m"
  have m0: "paddle_ok (left_paddle_m ?m0)" "paddle_ok (right_paddle_m ?m0)"
    "ball_ok (ball_m ?m0)"
    using assms(1) by (simp_all add: match_ok_def)
  have t: "dt_ok (frame_dt_m i)" and r: "rand_ok_m (draws_m i)"
    using assms(2) by (simp_all add: input_ok_def)
  obtain lp where lp:
    "update_player_m (frame_dt_m i) (key_up_m i) (key_down_m i) (left_paddle_m ?m0) = Inr lp"
    "paddle_ok lp"
    using update_player_ok [OF m0(1) t] by blast
  obtain rp where rp:
    "update_ai_m (frame_dt_m i) (draws_m i) (ball_m ?m0) (right_paddle_m ?m0) = Inr rp"
    "paddle_ok rp"
    using update_ai_ok [OF m0(2) t] by blast
  obtain b s where bs:
    "update_m (frame_dt_m i) (ticks_update_m i) (draws_m i) lp rp (ball_m ?m0) = Inr (b, s)"
    "ball_moving b" "s = 0 \<longrightarrow> ball_ok b"
    using update_ok [OF m0(3) lp(2) rp(2) t r] by blast
  let ?m1 = "?m0\<lparr>left_paddle_m := lp, right_paddle_m := rp, ball_m := b\<rparr>"
  have "paddle_ok (left_paddle_m ?m1)" "paddle_ok (right_paddle_m ?m1)"
    "ball_moving (ball_m ?m1)" "s = 0 \<longrightarrow> ball_ok (ball_m ?m1)"
    using lp(2) rp(2) bs(2,3) by simp_all
  then obtain m2 where m2: "apply_score_m s (ticks_reset_m i) ?m1 = Inr m2" "match_ok m2"
    using apply_score_ok by blast
  have "frame_m i m = Inr (win_banner_m m2)"
    unfolding frame_m_def Let_def
    by (simp only: lp(1) rp(1) bs(1) m2(1) and_then_Inr prod.case)
  then show ?thesis using win_banner_ok [OF m2(2)] by simp
qed

lemma run_ok:
  assumes "match_ok m" "\<forall>i \<in> set inputs. input_ok i"
  shows "\<exists>m'. run_m inputs m = Inr m' \<and> match_ok m'"
  using assms
proof (induction inputs arbitrary: m)
  case Nil
  then show ?case by simp
next
  case (Cons i rest)
  show ?case
  proof (cases "running_m m")
    case False
    then show ?thesis using Cons.prems(1) by simp
  next
    case True
    obtain m1 where m1: "frame_m i m = Inr m1" "match_ok m1"
      using frame_ok [OF Cons.prems(1)] Cons.prems(2) by auto
    obtain m' where "run_m rest m1 = Inr m'" "match_ok m'"
      using Cons.IH [OF m1(2)] Cons.prems(2) by auto
    then show ?thesis using True m1(1) by simp
  qed
qed

lemma initial_match_m_ok: "match_ok (initial_match_m r c now)"
  by (simp add: match_ok_def paddle_ok_def ball_ok_def ball_moving_def initial_match_m_def
      Paddle_init_m_def Ball_init_m_def Let_def rect_defs config_defs)

text \<open>No operation divides by zero.\<close>

lemma nzd_Inr [simp]: "no_zero_division (Inr v)"
  by (simp add: no_zero_division_def)

lemma nzd_and_then:
  assumes "no_zero_division x" "\<And>v. no_zero_division (f v)"
  shows "no_zero_division (and_then x f)"
  using assms by (cases x) (auto simp: no_zero_division_def)

lemma nzd_if: "no_zero_division a \<Longrightarrow> no_zero_division b \<Longrightarrow> no_zero_division (if c then a else b)"
  by simp

lemma nzd_prod: "(\<And>a b. no_zero_division (f a b)) \<Longrightarrow> no_zero_division (case_prod f p)"
  by (cases p) simp

lemma nzd_float_int: "no_zero_division (float_int x)"
  by (cases x) (simp_all add: no_zero_division_def)

lemma nzd_float_cos: "no_zero_division (float_cos x)"
  by (cases x) (simp_all add: no_zero_division_def)

lemma nzd_float_sin: "no_zero_division (float_sin x)"
  by (cases x) (simp_all add: no_zero_division_def)

lemma nzd_rect_assign: "no_zero_division (rect_assign setter v r)"
  by (simp add: rect_assign_def no_zero_division_def)

lemma nzd_rect_assign_center: "no_zero_division (rect_assign_center c r)"
  by (simp add: rect_assign_center_def no_zero_division_def)

lemmas nzd_intros =
  nzd_and_then nzd_if nzd_prod nzd_Inr nzd_float_int nzd_float_cos nzd_float_sin
  nzd_rect_assign nzd_rect_assign_center

lemma nzd_update_player: "no_zero_division (update_player_m t up down p)"
  unfolding update_player_m_def Let_def by (intro nzd_intros)

lemma nzd_ai_retarget: "no_zero_division (ai_retarget_m r bl p)"
  using ai_retarget_m_total [of r bl p] by auto

lemma nzd_ai_track: "no_zero_division (ai_track_m t p)"
  unfolding ai_track_m_def Let_def by (intro nzd_intros)

lemma nzd_update_ai: "no_zero_division (update_ai_m t r bl p)"
  unfolding update_ai_m_def Let_def by (intro nzd_intros nzd_ai_retarget nzd_ai_track)

lemma nzd_serve: "no_zero_division (serve_if_ready_m now r b)"
  unfolding serve_if_ready_m_def by (intro nzd_intros)

lemma nzd_reset: "no_zero_division (reset_m d now b)"
  unfolding reset_m_def by (intro nzd_intros)

lemma nzd_integrate: "no_zero_division (integrate_m t b)"
  unfolding integrate_m_def by (intro nzd_intros)

lemma nzd_collide_walls: "no_zero_division (collide_walls_m b)"
  unfolding collide_walls_m_def by (intro nzd_intros)

lemma nzd_bounce: "no_zero_division (bounce_off_paddle_m r p is_left b)"
proof -
  obtain o0 where o0:
    "float_div (of_py_int (get_centery (rect_bm b) - get_centery (rect_pm p))) (Fin 50) = Inr o0"
    using float_div_total [of "Fin 50"] by auto
  show ?thesis
    unfolding bounce_off_paddle_m_def Let_def
    by (simp only: half_height o0 and_then_Inr) (intro nzd_intros)
qed

lemma nzd_collide_paddles: "no_zero_division (collide_paddles_m r lp rp b)"
  unfolding collide_paddles_m_def by (intro nzd_intros nzd_bounce)

lemma nzd_update: "no_zero_division (update_m t now r lp rp b)"
  unfolding update_m_def
  by (intro nzd_intros nzd_serve nzd_integrate nzd_collide_walls nzd_collide_paddles)

lemma nzd_apply_score: "no_zero_division (apply_score_m s now m)"
  unfolding apply_score_m_def by (intro nzd_intros nzd_reset)

lemma nzd_frame: "no_zero_division (frame_m i m)"
  unfolding frame_m_def Let_def
  by (intro nzd_intros nzd_update_player nzd_update_ai nzd_update nzd_apply_score)

lemma nzd_run: "no_zero_division (run_m inputs m)"
proof (induction inputs arbitrary: m)
  case Nil
  show ?case by simp
next
  case (Cons i rest)
  show ?case using Cons.IH by (auto intro: nzd_and_then nzd_frame)
qed

text \<open>Evaluations at long frame times.\<close>

lemma round_f_numeral:
  "(numeral k :: int) < 2 ^ 53 \<Longrightarrow> round_f (numeral k) = Fin (numeral k)"
  using round_f_int [of "numeral k"] by simp

lemma round_f_0 [simp]: "round_f 0 = Fin 0"
  using round_f_int [of 0] by simp

lemma round_f_1 [simp]: "round_f 1 = Fin 1"
  using round_f_int [of 1] by simp

lemma first_serve_too_far:
  "update_m (Fin 10000000) 1000 draws0_m (left_paddle_m (initial_match_m draws0_m 1 0))
     (right_paddle_m (initial_match_m draws0_m 1 0)) (ball_m (initial_match_m draws0_m 1 0))
   = Inl TypeError"
  by (simp add: update_m_def serve_if_ready_m_def length_squared_m_def integrate_m_def
      initial_match_m_def Ball_init_m_def Paddle_init_m_def draws0_m_def of_py_int_def
      round_f_numeral feq_def rect_assign_def c_int_ok_def set_x_def py_int_def
      Let_def rect_defs config_defs)

lemma overflow_step: "fmul (Fin 420) (Fin (2 ^ 1020)) = PInf"
proof -
  have "fl (of_int 420 * 2 powi 1020) = of_int 420 * 2 powi 1020"
    by (rule fl_fixes [where k = 420 and u = 1020]) simp_all
  then have "fl (420 * 2 ^ 1020) = 420 * 2 ^ 1020" by simp
  then show ?thesis by (simp add: round_f_def Let_def)
qed

lemma player_overflow:
  "update_player_m (Fin (2 ^ 1020)) True False (left_paddle_m (initial_match_m draws0_m 1 0))
   = Inl OverflowError"
proof -
  have s: "of_py_int (speed_pm (left_paddle_m (initial_match_m draws0_m 1 0))) = Fin 420"
    by (simp add: initial_match_m_def Paddle_init_m_def Let_def of_py_int_def round_f_numeral
        config_defs)
  show ?thesis
    unfolding update_player_m_def Let_def s overflow_step
    by (simp add: fsub_def initial_match_m_def Paddle_init_m_def Let_def of_py_int_def
        round_f_numeral rect_defs config_defs)
qed

subsection \<open>C1: the score signal of \<open>Ball.update\<close>\<close>

text \<open>
  C1. The claim: an in-flight call of \<open>Ball.update\<close> returns \<open>-1\<close> when the ball has fully
  left the screen on the left, \<open>+1\<close> when it has fully left on the right, and \<open>0\<close>
  otherwise; so a ball one pixel past the right edge that moves rightward yields \<open>+1\<close>.
  The comment that heads the function says the same. The body returns the opposite
  signs: evaluated on a ball whose left edge is at \<open>SCREEN_WIDTH + 1\<close>, moving rightward,
  the call returns \<open>-1\<close>, and on a ball wholly past the left edge, moving leftward, it
  returns \<open>+1\<close>.
\<close>

theorem update_exit_signal_swapped:
  "map_sum id snd
     (update (1 / 60) 0 draws0 (left_paddle (initial_match draws0 1 0))
        (right_paddle (initial_match draws0 1 0)) (ball_at (SCREEN_WIDTH + 1) 293 360 0))
     = Inr (- 1)
   \<and> map_sum id snd
     (update (1 / 60) 0 draws0 (left_paddle (initial_match draws0 1 0))
        (right_paddle (initial_match draws0 1 0)) (ball_at (- 15) 293 (- 360) 0))
     = Inr 1"
  by (simp add: eval_defs)

subsection \<open>C2: which score a signal increments\<close>

text \<open>
  C2. In the score-handling step of the loop, a nonzero signal returned by \<open>Ball.update\<close>
  increments exactly one score, by exactly one, and it is the score of the side whose
  edge the ball went past: past the left edge, \<open>left_score\<close>; past the right edge,
  \<open>right_score\<close>. The ball is of the regular width, as every ball of a match is.
\<close>

theorem score_follows_exit_side:
  assumes "update dt now r lp rp b = Inr (b', s)" "s \<noteq> 0" "rect_w (b_rect b) = BALL_SIZE"
  shows "(get_right (b_rect b') < 0 \<or> get_left (b_rect b') > SCREEN_WIDTH)
       \<and> (get_right (b_rect b') < 0 \<longrightarrow>
            left_score (apply_score s t (m\<lparr>ball := b'\<rparr>)) = left_score m + 1
            \<and> right_score (apply_score s t (m\<lparr>ball := b'\<rparr>)) = right_score m)
       \<and> (get_left (b_rect b') > SCREEN_WIDTH \<longrightarrow>
            right_score (apply_score s t (m\<lparr>ball := b'\<rparr>)) = right_score m + 1
            \<and> left_score (apply_score s t (m\<lparr>ball := b'\<rparr>)) = left_score m)"
proof -
  obtain b2 s2 where u: "update dt now r lp rp b = Inr (b2, s2)"
     "rect_w (b_rect b2) = rect_w (b_rect b)" "s2 = 0 \<or> s2 = out_of_bounds b2"
    using update_total by blast
  then have s: "s = out_of_bounds b'" and w: "rect_w (b_rect b') = BALL_SIZE"
    using assms by auto
  show ?thesis using s w assms(2)
    by (auto simp: out_of_bounds_def apply_score_def rect_defs config_defs split: if_splits)
qed

theorem score_follows_exit_side_witness:
  "update (17 / 1000) 0 draws0 (left_paddle (initial_match draws0 1 0))
        (right_paddle (initial_match draws0 1 0)) (ball_at (- 15) 293 (- 360) 0)
     = Inr (ball_at (- 21) 293 (- 360) 0, 1)
   \<and> get_right (b_rect (ball_at (- 21) 293 (- 360) 0)) < 0
   \<and> left_score (apply_score 1 0 ((initial_match draws0 1 0)\<lparr>ball := ball_at (- 21) 293 (- 360) 0\<rparr>))
       = 1
   \<and> right_score (apply_score 1 0 ((initial_match draws0 1 0)\<lparr>ball := ball_at (- 21) 293 (- 360) 0\<rparr>))
       = 0
   \<and> update (17 / 1000) 0 draws0 (left_paddle (initial_match draws0 1 0))
        (right_paddle (initial_match draws0 1 0)) (ball_at 801 293 360 0)
     = Inr (ball_at 807 293 360 0, - 1)
   \<and> get_left (b_rect (ball_at 807 293 360 0)) > SCREEN_WIDTH
   \<and> right_score (apply_score (- 1) 0 ((initial_match draws0 1 0)\<lparr>ball := ball_at 807 293 360 0\<rparr>))
       = 1
   \<and> left_score (apply_score (- 1) 0 ((initial_match draws0 1 0)\<lparr>ball := ball_at 807 293 360 0\<rparr>))
       = 0"
proof -
  let ?lp = "left_paddle (initial_match draws0 1 0)"
  let ?rp = "right_paddle (initial_match draws0 1 0)"
  have u1: "update (17 / 1000) 0 draws0 ?lp ?rp (ball_at (- 15) 293 (- 360) 0)
              = Inr (ball_at (- 21) 293 (- 360) 0, 1)"
    by (simp add: eval_defs)
  have u2: "update (17 / 1000) 0 draws0 ?lp ?rp (ball_at 801 293 360 0)
              = Inr (ball_at 807 293 360 0, - 1)"
    by (simp add: eval_defs)
  have w: "rect_w (b_rect (ball_at x y vx vy)) = BALL_SIZE" for x y vx vy
    by (simp add: ball_at_def)
  have e1: "get_right (b_rect (ball_at (- 21) 293 (- 360) 0)) < 0"
    by (simp add: ball_at_def rect_defs config_defs)
  have e2: "get_left (b_rect (ball_at 807 293 360 0)) > SCREEN_WIDTH"
    by (simp add: ball_at_def rect_defs config_defs)
  have s0: "left_score (initial_match draws0 1 0) = 0" "right_score (initial_match draws0 1 0) = 0"
    by (simp_all add: initial_match_def)
  show ?thesis
    using score_follows_exit_side [OF u1 _ w, where m = "initial_match draws0 1 0" and t = 0]
      score_follows_exit_side [OF u2 _ w, where m = "initial_match draws0 1 0" and t = 0]
      u1 u2 e1 e2 s0
    by simp
qed

subsection \<open>C3: the ball after the match is won\<close>

text \<open>
  C3. The claim: once a score reaches \<open>SCORE_TO_WIN\<close> the ball's velocity is forced to
  zero and its position is not updated on any later frame; the source marks the
  assignment with the comment "Freeze ball and paddles when game ended". The velocity is
  zeroed at the end of every such frame, but the ball is not frozen: a ball at rest is
  served again by the next \<open>update\<close> whose tick has reached the serve time, and is moved
  before the velocity is zeroed once more. Evaluated from \<open>match_point\<close>: the frame at tick
  1000 brings the left score to 10 and leaves the ball centred and at rest; the frame at
  tick 1817 then moves it by six pixels.
\<close>

theorem finished_match_ball_moves:
  "map_sum id observe (run [frame_at 1000] match_point) = Inr (10, 0, 393, 293, 0, 0)
   \<and> map_sum id observe (run [frame_at 1000, frame_at 1817] match_point)
       = Inr (10, 0, 399, 293, 0, 0)"
  by (simp add: eval_frame_defs)

subsection \<open>C4: the speed after a paddle hit\<close>

text \<open>
  C4 as stated fails: with the speed in \<open>[BALL_SPEED, BALL_SPEED_MAX]\<close> and below the cap,
  a hit need not add exactly \<open>BALL_SPEED_INCREMENT\<close>. At speed 666, the speed after
  seventeen hits, the hit yields 680, an increase of 14.
\<close>

theorem bounce_speed_step_counterexample:
  "BALL_SPEED \<le> 666 \<and> (666::int) < BALL_SPEED_MAX
   \<and> map_sum id b_speed
       (bounce_off_paddle draws0 (left_paddle (initial_match draws0 1 0)) True
          ((ball_at 42 293 (- 360) 0)\<lparr>b_speed := 666\<rparr>)) = Inr 680
   \<and> (680::int) \<noteq> 666 + BALL_SPEED_INCREMENT"
  by (simp add: bounce_off_paddle_def py_div_def Let_def config_defs)

text \<open>
  C4, amended. For every paddle hit handled by the bounce routine, with the speed in
  \<open>[BALL_SPEED, BALL_SPEED_MAX]\<close> beforehand: the speed afterwards is
  \<open>min BALL_SPEED_MAX (speed + BALL_SPEED_INCREMENT)\<close>; it does not decrease and never
  exceeds \<open>BALL_SPEED_MAX\<close>; it strictly increases unless it was already at the cap; and
  it increases by exactly \<open>BALL_SPEED_INCREMENT\<close> whenever that does not pass the cap.
\<close>

theorem bounce_speed_capped:
  assumes "BALL_SPEED \<le> b_speed b" "b_speed b \<le> BALL_SPEED_MAX"
  shows "\<exists>b'. bounce_off_paddle r p is_left b = Inr b'
           \<and> b_speed b' = min BALL_SPEED_MAX (b_speed b + BALL_SPEED_INCREMENT)
           \<and> b_speed b \<le> b_speed b' \<and> b_speed b' \<le> BALL_SPEED_MAX
           \<and> (b_speed b < BALL_SPEED_MAX \<longrightarrow> b_speed b < b_speed b')
           \<and> (b_speed b + BALL_SPEED_INCREMENT \<le> BALL_SPEED_MAX
                \<longrightarrow> b_speed b' = b_speed b + BALL_SPEED_INCREMENT)"
  using assms
  by (simp add: bounce_off_paddle_def py_div_def Let_def PADDLE_HEIGHT_def
      BALL_SPEED_INCREMENT_def BALL_SPEED_MAX_def)

theorem bounce_speed_capped_witness:
  "BALL_SPEED \<le> b_speed (ball_at 42 293 (- 360) 0)
   \<and> b_speed (ball_at 42 293 (- 360) 0) + BALL_SPEED_INCREMENT \<le> BALL_SPEED_MAX
   \<and> map_sum id b_speed
       (bounce_off_paddle draws0 (left_paddle (initial_match draws0 1 0)) True
          (ball_at 42 293 (- 360) 0)) = Inr 378"
  using bounce_speed_capped [of "ball_at 42 293 (- 360) 0" draws0
      "left_paddle (initial_match draws0 1 0)" True]
  by (auto simp: ball_at_def Ball_init_def config_defs)

subsection \<open>C5: the direction of the serve after a score\<close>

text \<open>
  C5. \<open>reset\<close> stores the sign passed by the scoring branch as the serve direction, and
  the serve gives the horizontal velocity that sign: after the branch that increments
  \<open>left_score\<close> the serve, once its time has come, moves rightward, and after the branch
  that increments \<open>right_score\<close> it moves leftward. So the serve travels toward the side
  whose score was not incremented. Until the serve time the ball is returned unchanged by
  \<open>update\<close>, so nothing alters the stored direction before the serve. The serve angle is
  a draw from \<open>[-0.35, 0.35]\<close>.
\<close>

theorem serve_away_from_scorer:
  assumes "- (35 / 100) \<le> serve_angle r" "serve_angle r \<le> 35 / 100"
      and "s \<noteq> 0" "serve_time (ball (apply_score s now m)) \<le> later"
  shows "serve_dir (reset d now b) = d
       \<and> (0 < s \<longrightarrow> left_score (apply_score s now m) = left_score m + 1
                \<and> right_score (apply_score s now m) = right_score m
                \<and> serve_dir (ball (apply_score s now m)) = 1
                \<and> 0 < velocity_x (serve_if_ready later r (ball (apply_score s now m))))
       \<and> (s < 0 \<longrightarrow> right_score (apply_score s now m) = right_score m + 1
                \<and> left_score (apply_score s now m) = left_score m
                \<and> serve_dir (ball (apply_score s now m)) = - 1
                \<and> velocity_x (serve_if_ready later r (ball (apply_score s now m))) < 0)
       \<and> (early < serve_time (ball (apply_score s now m)) \<longrightarrow>
             update dt early r' lp rp (ball (apply_score s now m))
               = Inr (ball (apply_score s now m), 0))"
proof -
  let ?b = "ball (apply_score s now m)"
  have b: "length_squared ?b = 0" "0 < b_speed ?b"
    using assms(3) by (auto simp: apply_score_def reset_def length_squared_def BALL_SPEED_def)
  have d: "0 < s \<longrightarrow> serve_dir ?b = 1" "s < 0 \<longrightarrow> serve_dir ?b = - 1"
    by (auto simp: apply_score_def reset_def)
  have sc: "0 < s \<longrightarrow> left_score (apply_score s now m) = left_score m + 1
                \<and> right_score (apply_score s now m) = right_score m"
     "s < 0 \<longrightarrow> right_score (apply_score s now m) = right_score m + 1
                \<and> left_score (apply_score s now m) = left_score m"
    by (auto simp: apply_score_def)
  have w: "early < serve_time ?b \<longrightarrow> update dt early r' lp rp ?b = Inr (?b, 0)"
    using update_waiting [OF b(1)] by blast
  have "serve_dir (reset d now b) = d" by (simp add: reset_def)
  then show ?thesis
    using serve_direction [OF assms(1,2) b(1) assms(4) b(2)] d sc w by blast
qed

theorem serve_away_from_scorer_witness:
  "- (35 / 100) \<le> serve_angle draws0 \<and> serve_angle draws0 \<le> 35 / 100
   \<and> serve_time (ball (apply_score 1 1000 match_point)) \<le> 1800
   \<and> 1799 < serve_time (ball (apply_score 1 1000 match_point))
   \<and> left_score (apply_score 1 1000 match_point) = 10
   \<and> update (17 / 1000) 1799 draws0 (left_paddle match_point) (right_paddle match_point)
        (ball (apply_score 1 1000 match_point))
       = Inr (ball (apply_score 1 1000 match_point), 0)
   \<and> 0 < velocity_x (serve_if_ready 1800 draws0 (ball (apply_score 1 1000 match_point)))
   \<and> serve_time (ball (apply_score (- 1) 1000 match_point)) \<le> 1800
   \<and> right_score (apply_score (- 1) 1000 match_point) = 1
   \<and> velocity_x (serve_if_ready 1800 draws0 (ball (apply_score (- 1) 1000 match_point))) < 0"
proof -
  have a: "- (35 / 100) \<le> serve_angle draws0" "serve_angle draws0 \<le> 35 / 100"
    by (simp_all add: draws0_def)
  have t: "serve_time (ball (apply_score 1 1000 match_point)) \<le> 1800"
    "serve_time (ball (apply_score (- 1) 1000 match_point)) \<le> 1800"
    "1799 < serve_time (ball (apply_score 1 1000 match_point))"
    by (simp_all add: apply_score_def reset_def SERVE_DELAY_def)
  have s0: "left_score match_point = 9" "right_score match_point = 0"
    by (simp_all add: match_point_def initial_match_def)
  show ?thesis
    using serve_away_from_scorer [OF a _ t(1), where early = 1799 and dt = "17 / 1000"
        and r' = draws0 and lp = "left_paddle match_point" and rp = "right_paddle match_point"]
      serve_away_from_scorer [OF a _ t(2)] a t s0
    by simp
qed

subsection \<open>C6: \<open>reflect_off_bounds\<close>\<close>

text \<open>The three roundings met at \<open>y = hi = 0.9\<close>, \<open>lo = 0.3\<close>.\<close>

lemma fl_span_09_03:
  "fl (10808639105689191 / 18014398509481984) = 1351079888211149 / 2251799813685248"
  by (subst fl_eval [where e = "- 1"]) (simp_all add: rne_def)

lemma fl_twice_span_09_03:
  "fl (1351079888211149 / 1125899906842624) = 1351079888211149 / 1125899906842624"
  by (subst fl_eval [where e = 0]) (simp_all add: rne_def)

lemma fl_sum_09_03:
  "fl (16212958658533787 / 18014398509481984) = 4053239664633447 / 4503599627370496"
  by (subst fl_eval [where e = "- 1"]) (simp_all add: rne_def)

text \<open>
  C6 as stated fails in the arithmetic of the program. With \<open>y = hi = 0.9\<close> and
  \<open>lo = 0.3\<close> (the doubles \<open>8106479329266893 / 2^53\<close> and \<open>5404319552844595 / 2^54\<close>),
  so that \<open>hi > lo\<close> and \<open>y\<close> is in range, both \<open>hi - lo\<close> and \<open>lo + (y - lo)\<close> round up, and
  the call returns \<open>8106479329266894 / 2^53 = 0.9000000000000001\<close>: above \<open>hi\<close> and
  different from \<open>y\<close>.
\<close>

theorem reflect_off_bounds_rounding_counterexample:
  "fl (8106479329266893 / 2 ^ 53) = 8106479329266893 / 2 ^ 53
   \<and> fl (5404319552844595 / 2 ^ 54) = 5404319552844595 / 2 ^ 54
   \<and> (5404319552844595 / 2 ^ 54 :: real) < 8106479329266893 / 2 ^ 53
   \<and> reflect_off_bounds_f (Fin (8106479329266893 / 2 ^ 53)) (Fin (5404319552844595 / 2 ^ 54))
        (Fin (8106479329266893 / 2 ^ 53)) = Inr (Fin (8106479329266894 / 2 ^ 53))
   \<and> (8106479329266893 / 2 ^ 53 :: real) < 8106479329266894 / 2 ^ 53"
proof -
  have a: "fl (8106479329266893 / 2 ^ 53) = 8106479329266893 / 2 ^ 53"
    by (rule fl_fixes [where k = 8106479329266893 and u = "- 53"]) simp_all
  have b: "fl (5404319552844595 / 2 ^ 54) = 5404319552844595 / 2 ^ 54"
    by (rule fl_fixes [where k = 5404319552844595 and u = "- 54"]) simp_all
  have c: "reflect_off_bounds_f (Fin (8106479329266893 / 2 ^ 53))
             (Fin (5404319552844595 / 2 ^ 54)) (Fin (8106479329266893 / 2 ^ 53))
           = Inr (Fin (8106479329266894 / 2 ^ 53))"
    by (simp add: reflect_off_bounds_f_def fsub_def round_f_def Let_def fle_def feq_def fgt_def
        py_int_def fl_span_09_03 fl_twice_span_09_03 fl_sum_09_03)
  show ?thesis using a b c by simp
qed

text \<open>
  C6, amended. For bounds that are whole numbers with \<open>0 \<le> lo < hi \<le> 2^51\<close>, as are the
  bounds 7 and 593 of the function's only call, and for every finite double \<open>y\<close>:
  \<open>reflect_off_bounds y lo hi\<close> returns a value within \<open>[lo, hi]\<close>, and for \<open>y\<close> already in
  \<open>[lo, hi]\<close> the value returned is \<open>y\<close> itself. A finite double is a real that rounding
  leaves unchanged, below \<open>2^1024\<close> in magnitude.
\<close>

theorem reflect_off_bounds_int_bounds:
  assumes "0 \<le> lo" "lo < hi" "hi \<le> 2 ^ 51" and "fl y = y" "\<bar>y\<bar> < 2 ^ 1024"
  shows "\<exists>r. reflect_off_bounds_f (Fin y) (Fin (of_int lo)) (Fin (of_int hi)) = Inr (Fin r)
           \<and> of_int lo \<le> r \<and> r \<le> of_int hi
           \<and> (of_int lo \<le> y \<and> y \<le> of_int hi \<longrightarrow> r = y)"
proof -
  define s where "s = hi - lo"
  define w where "w = 2 * s"
  have sb: "0 < s" "\<bar>s\<bar> < 2 ^ 53" "\<bar>w\<bar> < 2 ^ 53" "0 < w" "\<bar>lo\<bar> < 2 ^ 53" "\<bar>hi\<bar> < 2 ^ 53"
    using assms(1-3) by (simp_all add: s_def w_def)
  \<comment> \<open>the span and its double are exact\<close>
  have exact: "round_f (of_int n) = Fin (of_int n)" if "0 \<le> n" "\<bar>n\<bar> < 2 ^ 53" for n
  proof -
    have "round_f (of_int n) = Fin (fl (of_int n))"
      using that by (intro round_f_small [where n = n]) simp_all
    then show ?thesis by (simp only: fl_of_int [OF that(2)])
  qed
  have span: "fsub (Fin (of_int hi)) (Fin (of_int lo)) = Fin (of_int s)"
  proof -
    have "real_of_int hi + - real_of_int lo = of_int s" by (simp add: s_def)
    then show ?thesis
      using exact [of s] sb(1,2) by (simp only: fsub_def fneg.simps fadd.simps)
  qed
  have two: "fmul (Fin 2) (Fin (of_int s)) = Fin (of_int w)"
  proof -
    have "2 * real_of_int s = of_int w" by (simp add: w_def)
    then show ?thesis
      using exact [of w] sb(3,4) by (simp only: fmul.simps)
  qed
  \<comment> \<open>the offset of \<open>y\<close>\<close>
  define d where "d = fl (y - of_int lo)"
  have off: "fsub (Fin y) (Fin (of_int lo)) = Fin d"
  proof -
    have "\<bar>- real_of_int lo\<bar> \<le> 2 ^ 51" using assms(1-3) by simp
    then have "round_f (y + - of_int lo) = Fin (fl (y + - of_int lo))"
      by (rule round_f_near_double [OF assms(4,5)])
    then show ?thesis by (simp add: fsub_def d_def)
  qed
  \<comment> \<open>the remainder\<close>
  define r where "r = d - of_int w * of_int (py_int (d / of_int w))"
  define t0 where "t0 = (if r < 0 then fl (r + of_int w) else r)"
  have wpos: "(0::real) < of_int w" using sb(4) by simp
  have rb: "\<bar>r\<bar> < of_int w" unfolding r_def by (rule fmod_range(1) [OF wpos])
  have t0b: "0 \<le> t0 \<and> t0 \<le> of_int w"
  proof (cases "r < 0")
    case True
    then have "of_int 0 \<le> r + of_int w" "r + of_int w \<le> of_int w" using rb by simp_all
    then have "of_int 0 \<le> fl (r + of_int w) \<and> fl (r + of_int w) \<le> of_int w"
      using sb(3) by (intro fl_between) simp_all
    then show ?thesis using True by (simp add: t0_def)
  next
    case False
    then show ?thesis using rb by (simp add: t0_def)
  qed
  have md: "float_mod (Fin d) (Fin (of_int w)) = Inr (Fin t0)"
  proof (cases "r < 0")
    case True
    then have "\<bar>r + of_int w\<bar> \<le> of_int w" using rb by simp
    then have "round_f (r + of_int w) = Fin (fl (r + of_int w))"
      using sb(3) by (rule round_f_small)
    then show ?thesis using True wpos
      by (simp add: Let_def r_def [symmetric] t0_def)
  next
    case False
    then show ?thesis using wpos
      by (auto simp: Let_def r_def [symmetric] t0_def)
  qed
  \<comment> \<open>the fold\<close>
  define t1 where "t1 = (if of_int s < t0 then fl (of_int w - t0) else t0)"
  have fold: "(if fgt (Fin t0) (Fin (of_int s)) then fsub (Fin (of_int w)) (Fin t0) else Fin t0)
                = Fin t1"
  proof (cases "of_int s < t0")
    case True
    have "\<bar>of_int w + - t0\<bar> \<le> of_int w" using t0b by simp
    then have "round_f (of_int w + - t0) = Fin (fl (of_int w + - t0))"
      using sb(3) by (rule round_f_small)
    then show ?thesis using True by (simp add: fgt_def fsub_def t1_def)
  next
    case False
    then show ?thesis by (simp add: fgt_def t1_def)
  qed
  have t1b: "0 \<le> t1 \<and> t1 \<le> of_int s"
  proof (cases "of_int s < t0")
    case True
    then have "of_int 0 \<le> of_int w - t0" "of_int w - t0 \<le> of_int s"
      using t0b by (simp_all add: w_def)
    then have "of_int 0 \<le> fl (of_int w - t0) \<and> fl (of_int w - t0) \<le> of_int s"
      using sb(2) by (intro fl_between) simp_all
    then show ?thesis using True by (simp add: t1_def)
  next
    case False
    then show ?thesis using t0b by (simp add: t1_def)
  qed
  \<comment> \<open>the result\<close>
  have "of_int lo \<le> of_int lo + t1" "of_int lo + t1 \<le> of_int hi"
    using t1b by (simp_all add: s_def)
  then have res: "of_int lo \<le> fl (of_int lo + t1) \<and> fl (of_int lo + t1) \<le> of_int hi"
    using sb(5,6) by (intro fl_between) simp_all
  have "\<bar>of_int lo + t1\<bar> \<le> of_int hi" using t1b assms(1) by (simp add: s_def)
  then have add: "fadd (Fin (of_int lo)) (Fin t1) = Fin (fl (of_int lo + t1))"
    using sb(6) by (simp add: round_f_small)
  have nle: "\<not> fle (Fin (of_int s)) (Fin 0)" using sb(1) by (simp add: fle_def feq_def)
  have val: "reflect_off_bounds_f (Fin y) (Fin (of_int lo)) (Fin (of_int hi))
                    = Inr (Fin (fl (of_int lo + t1)))"
    unfolding reflect_off_bounds_f_def Let_def span two off md
    using nle fold add by (simp del: fmul.simps fadd.simps float_mod.simps)
  \<comment> \<open>a value in range is returned unchanged\<close>
  have idem: "fl (of_int lo + t1) = y" if "of_int lo \<le> y \<and> y \<le> of_int hi"
  proof -
    have "y \<le> 2 ^ 51"
    proof -
      have "real_of_int hi \<le> real_of_int (2 ^ 51)" using assms(3) by (simp only: of_int_le_iff)
      then show ?thesis using that by simp
    qed
    then have dv: "d = y - of_int lo"
      unfolding d_def using that assms(1,4) by (intro sub_exact) simp_all
    then have d0: "0 \<le> d" "d < of_int w" "d \<le> of_int s"
      using that sb(1) by (simp_all add: s_def w_def)
    then have "r = d" unfolding r_def by (intro fmod_small)
    then have "t0 = d" using d0(1) by (simp add: t0_def)
    then have "t1 = d" using d0(3) by (simp add: t1_def)
    then show ?thesis using dv assms(4) by simp
  qed
  show ?thesis using val res idem by blast
qed

theorem reflect_off_bounds_int_bounds_witness:
  "(0::int) \<le> 7 \<and> (7::int) < 593 \<and> (593::int) \<le> 2 ^ 51
   \<and> fl 300 = 300 \<and> \<bar>300::real\<bar> < 2 ^ 1024 \<and> (7::real) \<le> 300 \<and> (300::real) \<le> 593
   \<and> reflect_off_bounds_f (Fin 300) (Fin 7) (Fin 593) = Inr (Fin 300)
   \<and> fl 600 = 600
   \<and> (\<exists>r. reflect_off_bounds_f (Fin 600) (Fin 7) (Fin 593) = Inr (Fin r) \<and> 7 \<le> r \<and> r \<le> 593)"
proof -
  have a: "fl 300 = 300" using fl_of_int [of 300] by simp
  have b: "fl 600 = 600" using fl_of_int [of 600] by simp
  have c: "\<bar>300::real\<bar> < 2 ^ 1024" "\<bar>600::real\<bar> < 2 ^ 1024" by simp_all
  show ?thesis
    using reflect_off_bounds_int_bounds [of 7 593 300, OF _ _ _ a c(1)]
      reflect_off_bounds_int_bounds [of 7 593 600, OF _ _ _ b c(2)] a b
    by auto
qed

subsection \<open>C7: the paddles stay on the screen\<close>

text \<open>
  C7. For every \<open>dt\<close> (so for every \<open>dt \<ge> 0\<close>) and every input, after \<open>update_player\<close> and
  after \<open>update_ai\<close> the paddle's vertical centre lies within
  \<open>[PADDLE_HEIGHT div 2, SCREEN_HEIGHT - PADDLE_HEIGHT div 2]\<close>; every frame leaves both
  paddles there, and so does every run of the loop from the initial match. The AI paddle
  is of the regular height, as every paddle of a match is.
\<close>

theorem paddle_center_clamped:
  "paddle_in_bounds (update_player dt up down p)
   \<and> (rect_h (p_rect p) = PADDLE_HEIGHT \<longrightarrow>
        (\<exists>p'. update_ai dt r b p = Inr p' \<and> paddle_in_bounds p'))
   \<and> (rect_h (p_rect (right_paddle m)) = PADDLE_HEIGHT \<longrightarrow>
        (\<exists>m'. frame i m = Inr m'
           \<and> paddle_in_bounds (left_paddle m') \<and> paddle_in_bounds (right_paddle m')))
   \<and> (\<exists>m'. run inputs (initial_match r0 c now) = Inr m'
           \<and> paddle_in_bounds (left_paddle m') \<and> paddle_in_bounds (right_paddle m'))"
proof -
  have "\<exists>m'. run inputs (initial_match r0 c now) = Inr m'
           \<and> paddle_in_bounds (left_paddle m') \<and> paddle_in_bounds (right_paddle m')"
    using run_total [of inputs "initial_match r0 c now"] initial_match_ok [of r0 c now]
    by (auto simp: paddles_ok_def)
  then show ?thesis
    using update_player_in_bounds [of dt up down p] update_ai_total [of dt r b p]
      frame_total [of i m]
    by blast
qed

theorem paddle_center_clamped_witness:
  "rect_h (p_rect (right_paddle (initial_match draws0 1 0))) = PADDLE_HEIGHT
   \<and> (\<exists>p'. update_ai (17 / 1000) draws0 (ball match_point)
              (right_paddle (initial_match draws0 1 0)) = Inr p' \<and> paddle_in_bounds p')
   \<and> (\<exists>m'. frame (frame_at 1000) (initial_match draws0 1 0) = Inr m'
           \<and> paddle_in_bounds (left_paddle m') \<and> paddle_in_bounds (right_paddle m'))"
proof -
  have h: "rect_h (p_rect (right_paddle (initial_match draws0 1 0))) = PADDLE_HEIGHT"
    by (simp add: initial_match_def Paddle_init_def Let_def)
  show ?thesis
    using h
      paddle_center_clamped [of "17 / 1000" False False
        "right_paddle (initial_match draws0 1 0)" draws0 "ball match_point"
        "initial_match draws0 1 0" "frame_at 1000" "[]" draws0 1 0]
    by blast
qed

subsection \<open>C8: bouncing off the top and bottom\<close>

text \<open>
  C8. In the wall-collision stage of \<open>Ball.update\<close>, a ball (of the regular size) whose
  top has reached or crossed the top bound is put with its top on the bound, one whose
  bottom has reached or crossed the bottom bound is put with its bottom on the bound, and
  in both cases the vertical velocity changes sign and keeps its magnitude; the
  horizontal position and velocity are untouched.
\<close>

theorem wall_bounce_elastic:
  assumes "rect_h (b_rect b) = BALL_SIZE"
  shows "(get_top (b_rect b) \<le> 0 \<longrightarrow>
            get_top (b_rect (collide_walls b)) = 0
            \<and> velocity_y (collide_walls b) = - velocity_y b)
       \<and> (get_bottom (b_rect b) \<ge> SCREEN_HEIGHT \<longrightarrow>
            get_bottom (b_rect (collide_walls b)) = SCREEN_HEIGHT
            \<and> velocity_y (collide_walls b) = - velocity_y b)
       \<and> \<bar>velocity_y (collide_walls b)\<bar> = \<bar>velocity_y b\<bar>
       \<and> velocity_x (collide_walls b) = velocity_x b
       \<and> get_left (b_rect (collide_walls b)) = get_left (b_rect b)"
  using assms by (auto simp: collide_walls_def rect_defs config_defs)

theorem wall_bounce_elastic_witness:
  "rect_h (b_rect (ball_at 400 (- 3) 300 (- 200))) = BALL_SIZE
   \<and> get_top (b_rect (ball_at 400 (- 3) 300 (- 200))) \<le> 0
   \<and> get_top (b_rect (collide_walls (ball_at 400 (- 3) 300 (- 200)))) = 0
   \<and> velocity_y (collide_walls (ball_at 400 (- 3) 300 (- 200))) = 200
   \<and> get_bottom (b_rect (ball_at 400 590 300 200)) \<ge> SCREEN_HEIGHT
   \<and> get_bottom (b_rect (collide_walls (ball_at 400 590 300 200))) = SCREEN_HEIGHT
   \<and> velocity_y (collide_walls (ball_at 400 590 300 200)) = - 200"
proof -
  have h: "rect_h (b_rect (ball_at x y vx vy)) = BALL_SIZE" for x y vx vy
    by (simp add: ball_at_def)
  have t: "get_top (b_rect (ball_at 400 (- 3) 300 (- 200))) \<le> 0"
    by (simp add: ball_at_def rect_defs)
  have u: "get_bottom (b_rect (ball_at 400 590 300 200)) \<ge> SCREEN_HEIGHT"
    by (simp add: ball_at_def rect_defs config_defs)
  have v: "velocity_y (ball_at 400 (- 3) 300 (- 200)) = - 200"
    "velocity_y (ball_at 400 590 300 200) = 200"
    by (simp_all add: ball_at_def)
  show ?thesis
    using wall_bounce_elastic [OF h, of 400 "- 3" 300 "- 200"]
      wall_bounce_elastic [OF h, of 400 590 300 200] h t u v
    by simp
qed

subsection \<open>C9: no operation fails\<close>

text \<open>
  C9 as stated fails: an operation can raise when the frame time is long. On the initial
  ball, due to be served, \<open>Ball.update\<close> with \<open>dt = 10^7\<close> serves it at 360 pixels per second
  and raises \<open>TypeError\<close> on \<open>rect.x += int(velocity.x * dt)\<close>, the sum 3600000393 being
  outside the range of the rectangle's integers; and \<open>update_player\<close> with the up key down
  and \<open>dt = 2^1020\<close> raises \<open>OverflowError\<close> on \<open>int(centery + dy)\<close>, the product
  \<open>speed * dt\<close> having overflowed to an infinity.
\<close>

theorem simulation_fails_for_long_frames:
  "(0::real) \<le> 10000000
   \<and> update_m (Fin 10000000) 1000 draws0_m (left_paddle_m (initial_match_m draws0_m 1 0))
       (right_paddle_m (initial_match_m draws0_m 1 0)) (ball_m (initial_match_m draws0_m 1 0))
     = Inl TypeError
   \<and> (0::real) \<le> 2 ^ 1020
   \<and> update_player_m (Fin (2 ^ 1020)) True False
       (left_paddle_m (initial_match_m draws0_m 1 0))
     = Inl OverflowError"
  using first_serve_too_far player_overflow by simp

text \<open>
  C9, amended. For every frame time \<open>0 \<le> dt \<le> 10^6\<close> seconds, the random draws in their
  ranges, every operation of the simulation is defined on every state of a match: a frame
  leads from such a state to such a state, every run of frames from the initial match
  returns, and so do \<open>update_player\<close>, \<open>update_ai\<close>, \<open>serve_if_ready\<close>, \<open>Ball.update\<close>, the
  bounce, \<open>reset\<close> and \<open>reflect_off_bounds\<close> at the bounds of its call. For every frame
  time and every state whatsoever no operation raises \<open>ZeroDivisionError\<close>: the
  retargeting of the AI, whose division by the ball's horizontal velocity is made only
  when that velocity is strictly positive, always returns.
\<close>

theorem simulation_defined_for_frame_times:
  "(match_ok m \<and> input_ok i \<longrightarrow> (\<exists>m'. frame_m i m = Inr m' \<and> match_ok m'))
   \<and> ((\<forall>j \<in> set inputs. input_ok j) \<longrightarrow>
        (\<exists>m'. run_m inputs (initial_match_m r0 c now) = Inr m' \<and> match_ok m'))
   \<and> (paddle_ok p \<and> dt_ok t \<longrightarrow>
        (\<exists>p'. update_player_m t up down p = Inr p') \<and> (\<exists>p'. update_ai_m t r any_ball p = Inr p'))
   \<and> (ball_ok b \<and> rand_ok_m r \<longrightarrow> (\<exists>b'. serve_if_ready_m tick r b = Inr b'))
   \<and> (ball_ok b \<and> paddle_ok lp \<and> paddle_ok rp \<and> dt_ok t \<and> rand_ok_m r \<longrightarrow>
        (\<exists>b' s. update_m t tick r lp rp b = Inr (b', s)))
   \<and> (ball_ok b \<and> paddle_ok p \<and> rand_ok_m r \<longrightarrow>
        (\<exists>b'. bounce_off_paddle_m r p is_left b = Inr b'))
   \<and> (ball_ok b \<longrightarrow> (\<exists>b'. reset_m d tick b = Inr b'))
   \<and> (\<exists>v. reflect_off_bounds_f y (of_py_int (BALL_SIZE div 2))
              (of_py_int (SCREEN_HEIGHT - BALL_SIZE div 2)) = Inr v)
   \<and> (\<exists>p'. ai_retarget_m any_draws any_ball any_paddle = Inr p')
   \<and> no_zero_division (frame_m any_input any_match)
   \<and> no_zero_division (run_m any_inputs any_match)"
proof -
  have f: "match_ok m \<and> input_ok i \<longrightarrow> (\<exists>m'. frame_m i m = Inr m' \<and> match_ok m')"
    using frame_ok by blast
  have rn: "(\<forall>j \<in> set inputs. input_ok j) \<longrightarrow>
        (\<exists>m'. run_m inputs (initial_match_m r0 c now) = Inr m' \<and> match_ok m')"
    using run_ok [OF initial_match_m_ok] by blast
  have pd: "paddle_ok p \<and> dt_ok t \<longrightarrow>
        (\<exists>p'. update_player_m t up down p = Inr p') \<and> (\<exists>p'. update_ai_m t r any_ball p = Inr p')"
    using update_player_ok update_ai_ok by blast
  have sv: "ball_ok b \<and> rand_ok_m r \<longrightarrow> (\<exists>b'. serve_if_ready_m tick r b = Inr b')"
    using serve_ok by blast
  have up: "ball_ok b \<and> paddle_ok lp \<and> paddle_ok rp \<and> dt_ok t \<and> rand_ok_m r \<longrightarrow>
        (\<exists>b' s. update_m t tick r lp rp b = Inr (b', s))"
    using update_ok by blast
  have bo: "ball_ok b \<and> paddle_ok p \<and> rand_ok_m r \<longrightarrow>
        (\<exists>b'. bounce_off_paddle_m r p is_left b = Inr b')"
    using bounce_ok [of b p r is_left] by (auto simp: ball_ok_def rand_ok_m_def)
  have rs: "ball_ok b \<longrightarrow> (\<exists>b'. reset_m d tick b = Inr b')"
    using reset_ok [of b d tick] by (auto simp: ball_ok_def)
  show ?thesis
    using f rn pd sv up bo rs reflect_off_bounds_call_total [of y]
      ai_retarget_m_total [of any_draws any_ball any_paddle]
      nzd_frame [of any_input any_match] nzd_run [of any_inputs any_match]
    by blast
qed

theorem simulation_defined_for_frame_times_witness:
  "match_ok (initial_match_m draws0_m 1 0)
   \<and> input_ok (frame_at_m (17 / 1000) 1000) \<and> input_ok (frame_at_m (17 / 1000) 1017)
   \<and> (\<exists>m'. frame_m (frame_at_m (17 / 1000) 1000) (initial_match_m draws0_m 1 0) = Inr m'
           \<and> match_ok m')
   \<and> (\<exists>m'. run_m [frame_at_m (17 / 1000) 1000, frame_at_m (17 / 1000) 1017]
             (initial_match_m draws0_m 1 0) = Inr m' \<and> match_ok m')
   \<and> paddle_ok (left_paddle_m (initial_match_m draws0_m 1 0)) \<and> dt_ok (Fin (17 / 1000))
   \<and> (\<exists>p'. update_player_m (Fin (17 / 1000)) True False
             (left_paddle_m (initial_match_m draws0_m 1 0)) = Inr p')
   \<and> ball_ok (ball_m (initial_match_m draws0_m 1 0)) \<and> rand_ok_m draws0_m
   \<and> (\<exists>b' s. update_m (Fin (17 / 1000)) 1000 draws0_m
               (left_paddle_m (initial_match_m draws0_m 1 0))
               (right_paddle_m (initial_match_m draws0_m 1 0))
               (ball_m (initial_match_m draws0_m 1 0)) = Inr (b', s))"
proof -
  have m: "match_ok (initial_match_m draws0_m 1 0)" by (rule initial_match_m_ok)
  have r: "rand_ok_m draws0_m" by (simp add: rand_ok_m_def draws0_m_def draw_in_def)
  have t: "dt_ok (Fin (17 / 1000))" by (simp add: dt_ok_def draw_in_def)
  have i: "input_ok (frame_at_m (17 / 1000) tick)" for tick
    using r t by (simp add: input_ok_def frame_at_m_def)
  have p: "paddle_ok (left_paddle_m (initial_match_m draws0_m 1 0))"
    "paddle_ok (right_paddle_m (initial_match_m draws0_m 1 0))"
    "ball_ok (ball_m (initial_match_m draws0_m 1 0))"
    using m by (simp_all add: match_ok_def)
  show ?thesis
    using m r t i p
      simulation_defined_for_frame_times [of "initial_match_m draws0_m 1 0"
        "frame_at_m (17 / 1000) 1000"
        "[frame_at_m (17 / 1000) 1000, frame_at_m (17 / 1000) 1017]" draws0_m 1 0
        "left_paddle_m (initial_match_m draws0_m 1 0)" "Fin (17 / 1000)" True False draws0_m
        "ball_m (initial_match_m draws0_m 1 0)" "ball_m (initial_match_m draws0_m 1 0)" 1000
        "left_paddle_m (initial_match_m draws0_m 1 0)"
        "right_paddle_m (initial_match_m draws0_m 1 0)"]
    by simp
qed

subsection \<open>C10: motion is truncated to whole pixels\<close>



end
